theory Spec2Isabelle
  imports Main "HOL-Library.Sublist" "HOL-Library.AList"
begin

section \<open>JavaScript string primitives used by the terminal simulator\<close>

text \<open>
  A JavaScript string is a sequence of UTF-16 code units.  Here a string is a
  \<^typ>\<open>string\<close> whose characters are the code units below 256, one character for one code
  unit; a line with a code unit above 255 has no counterpart in this theory.  White space and
  lower case are those of JavaScript on the code units below 256.  The two typographic
  quotation marks in the messages of \<open>mkdir\<close> are code units above 255: each is written as the
  three characters of its UTF-8 encoding, and the program never inspects a message it has
  produced.
\<close>

text \<open>\<open>s.split(c)\<close> for a one-character separator: never the empty array.\<close>

fun split_char :: "char \<Rightarrow> string \<Rightarrow> string list" where
  "split_char c [] = [[]]"
| "split_char c (x # xs) =
     (if x = c then [] # split_char c xs
      else (case split_char c xs of r # rs \<Rightarrow> (x # r) # rs | [] \<Rightarrow> [[x]]))"

text \<open>(The case of an empty result of the recursive call never arises.)\<close>

text \<open>\<open>xs.filter(p => p)\<close> on an array of strings: the empty string is the only falsy one.\<close>

definition filter_truthy :: "string list \<Rightarrow> string list" where
  "filter_truthy xs = filter (\<lambda>p. p \<noteq> []) xs"

text \<open>\<open>xs.join(sep)\<close>.\<close>

fun join :: "string \<Rightarrow> string list \<Rightarrow> string" where
  "join sep [] = []"
| "join sep [x] = x"
| "join sep (x # y # ys) = x @ sep @ join sep (y # ys)"

text \<open>\<open>s.split(sep)\<close> for a separator string of any length, scanning left to right;
  \<open>acc\<close> holds the current piece reversed.  The empty separator cuts between all characters.\<close>

function split_from :: "string \<Rightarrow> string \<Rightarrow> string \<Rightarrow> string list" where
  "split_from sep acc [] = [rev acc]"
| "split_from sep acc (c # cs) =
     (if sep \<noteq> [] \<and> prefix sep (c # cs)
      then rev acc # split_from sep [] (drop (length sep) (c # cs))
      else split_from sep (c # acc) cs)"
  by pat_completeness auto
termination
  by (relation "measure (\<lambda>(sep, acc, s). length s)") auto

definition split_str :: "string \<Rightarrow> string \<Rightarrow> string list" where
  "split_str sep s = (if sep = [] then map (\<lambda>c. [c]) s else split_from sep [] s)"

text \<open>\<open>s.replace(pat, rep)\<close> with a string pattern: only the first occurrence is replaced.\<close>

fun replace_first :: "string \<Rightarrow> string \<Rightarrow> string \<Rightarrow> string" where
  "replace_first pat rep [] = (if pat = [] then rep else [])"
| "replace_first pat rep (c # cs) =
     (if prefix pat (c # cs) then rep @ drop (length pat) (c # cs)
      else c # replace_first pat rep cs)"

text \<open>\<open>s.includes(q)\<close>.\<close>

fun includes_str :: "string \<Rightarrow> string \<Rightarrow> bool" where
  "includes_str [] q = (q = [])"
| "includes_str (c # cs) q = (prefix q (c # cs) \<or> includes_str cs q)"

text \<open>The class \<open>\s\<close>, which is also what \<open>trim\<close> removes: among the code units below 256
  these are the tab, the line feed, the vertical tab, the form feed, the carriage return, the
  space and the no-break space.  Then \<open>s.split(/\s+/)\<close> and \<open>s.trim()\<close>.\<close>

definition is_space :: "char \<Rightarrow> bool" where
  "is_space c \<longleftrightarrow>
     c \<in> set [CHR 0x09, CHR 0x0A, CHR 0x0B, CHR 0x0C, CHR 0x0D, CHR '' '', CHR 0xA0]"

function split_ws :: "string \<Rightarrow> string list" where
  "split_ws [] = [[]]"
| "split_ws (c # cs) =
     (if is_space c then [] # split_ws (dropWhile is_space cs)
      else (case split_ws cs of r # rs \<Rightarrow> (c # r) # rs | [] \<Rightarrow> [[c]]))"
  by pat_completeness auto
termination
  by (relation "measure length") (auto simp: length_dropWhile_le less_Suc_eq_le)

definition trim :: "string \<Rightarrow> string" where
  "trim s = rev (dropWhile is_space (rev (dropWhile is_space s)))"

text \<open>\<open>s.toLowerCase()\<close>: the letters \<open>A\<close> to \<open>Z\<close> and the capital letters of the range
  \<open>0xC0\<close> to \<open>0xDE\<close> (the multiplication sign \<open>0xD7\<close> is not one) have a lower-case
  form, \<open>0x20\<close> above; every other code unit below 256 is kept.\<close>

definition to_lower :: "char \<Rightarrow> char" where
  "to_lower c =
     (case map_of
        (zip (''ABCDEFGHIJKLMNOPQRSTUVWXYZ''
                @ [CHR 0xC0, CHR 0xC1, CHR 0xC2, CHR 0xC3, CHR 0xC4, CHR 0xC5, CHR 0xC6,
                   CHR 0xC7, CHR 0xC8, CHR 0xC9, CHR 0xCA, CHR 0xCB, CHR 0xCC, CHR 0xCD,
                   CHR 0xCE, CHR 0xCF, CHR 0xD0, CHR 0xD1, CHR 0xD2, CHR 0xD3, CHR 0xD4,
                   CHR 0xD5, CHR 0xD6, CHR 0xD8, CHR 0xD9, CHR 0xDA, CHR 0xDB, CHR 0xDC,
                   CHR 0xDD, CHR 0xDE])
             (''abcdefghijklmnopqrstuvwxyz''
                @ [CHR 0xE0, CHR 0xE1, CHR 0xE2, CHR 0xE3, CHR 0xE4, CHR 0xE5, CHR 0xE6,
                   CHR 0xE7, CHR 0xE8, CHR 0xE9, CHR 0xEA, CHR 0xEB, CHR 0xEC, CHR 0xED,
                   CHR 0xEE, CHR 0xEF, CHR 0xF0, CHR 0xF1, CHR 0xF2, CHR 0xF3, CHR 0xF4,
                   CHR 0xF5, CHR 0xF6, CHR 0xF8, CHR 0xF9, CHR 0xFA, CHR 0xFB, CHR 0xFC,
                   CHR 0xFD, CHR 0xFE])) c of
        Some l \<Rightarrow> l | None \<Rightarrow> c)"

definition toLowerCase :: "string \<Rightarrow> string" where
  "toLowerCase s = map to_lower s"

text \<open>\<open>s.lastIndexOf(c)\<close> (\<open>-1\<close> when absent), \<open>s.substring(a, b)\<close> and \<open>s.substring(a)\<close>:
  arguments are clamped to \<open>[0, length]\<close> and swapped when out of order.\<close>

fun lastIndexOf :: "char \<Rightarrow> string \<Rightarrow> int" where
  "lastIndexOf c [] = - 1"
| "lastIndexOf c (x # xs) =
     (let r = lastIndexOf c xs in if r \<ge> 0 then r + 1 else if x = c then 0 else - 1)"

definition clamp_index :: "string \<Rightarrow> int \<Rightarrow> nat" where
  "clamp_index s i = min (nat i) (length s)"

definition substring :: "string \<Rightarrow> int \<Rightarrow> int \<Rightarrow> string" where
  "substring s a b =
     (let i = clamp_index s a; j = clamp_index s b
      in take (max i j - min i j) (drop (min i j) s))"

definition substring_from :: "string \<Rightarrow> int \<Rightarrow> string" where
  "substring_from s a = drop (clamp_index s a) s"

text \<open>The decimal rendering of a non-negative integer in a template literal.\<close>

fun show_nat :: "nat \<Rightarrow> string" where
  "show_nat n =
     (if n < 10 then [''0123456789'' ! n]
      else show_nat (n div 10) @ [''0123456789'' ! (n mod 10)])"

declare show_nat.simps [simp del]


section \<open>The in-memory file system (\<open>utils/fileSystem.ts\<close>)\<close>

text \<open>A \<open>children\<close> object is the association list of its own properties, in the order in
  which JavaScript enumerates them.\<close>

datatype node = File (content: string) | Directory (children: "(string \<times> node) list")

text \<open>Reading \<open>children[part]\<close>: an own property is a node of the tree.  A \<open>children\<close> object
  is a plain object, so a name that is not its own but is one that every object inherits from
  \<open>Object.prototype\<close> is found too: its value is a function or an object, which is truthy
  and has no \<open>type\<close>.  Any other name reads as \<open>undefined\<close>, here \<open>None\<close>.\<close>

definition inherited_names :: "string list" where
  "inherited_names =
     [''constructor'', ''hasOwnProperty'', ''isPrototypeOf'', ''propertyIsEnumerable'',
      ''toLocaleString'', ''toString'', ''valueOf'', ''__proto__'',
      ''__defineGetter__'', ''__defineSetter__'', ''__lookupGetter__'', ''__lookupSetter__'']"

datatype found = Own node | Inherited

definition child :: "(string \<times> node) list \<Rightarrow> string \<Rightarrow> found option" where
  "child ch part =
     (case map_of ch part of
        Some m \<Rightarrow> Some (Own m)
      | None \<Rightarrow> if List.member inherited_names part then Some Inherited else None)"

text \<open>The loop of \<open>getNode\<close>: descend along the path segments.  Only a directory node is
  descended into; what the last segment reads is returned as it is.\<close>

fun walk :: "found \<Rightarrow> string list \<Rightarrow> found option" where
  "walk n [] = Some n"
| "walk (Own (Directory ch)) (p # ps) =
     (case child ch p of None \<Rightarrow> None | Some m \<Rightarrow> walk m ps)"
| "walk (Own (File c)) (p # ps) = None"
| "walk Inherited (p # ps) = None"

definition getNode :: "node \<Rightarrow> string \<Rightarrow> found option" where
  "getNode tree path = walk (Own tree) (filter_truthy (split_char CHR ''/'' path))"

text \<open>The body of the loop of \<open>resolvePath\<close>; \<open>pop\<close> on the empty array does nothing.\<close>

definition resolve_step :: "string list \<Rightarrow> string \<Rightarrow> string list" where
  "resolve_step currentParts part =
     (if part = ''.'' then currentParts
      else if part = ''..'' then butlast currentParts
      else currentParts @ [part])"

definition resolvePath :: "string \<Rightarrow> string \<Rightarrow> string" where
  "resolvePath cwd path =
     (if \<not> prefix ''/'' path \<and> path = ''~'' then ''/home/kali''
      else
        let cwd' = (if prefix ''/'' path then ''/'' else cwd);
            parts = filter_truthy (split_char CHR ''/'' path);
            currentParts =
              (if cwd' = ''/'' then [] else filter_truthy (split_char CHR ''/'' cwd'))
        in ''/'' @ join ''/'' (foldl resolve_step currentParts parts))"

text \<open>
  An object mutated in place, such as \<open>parentNode.children[name] = ...\<close> on the node that
  \<open>getNode\<close> returned, is the tree rebuilt along the path to that node: the tree has no
  sharing, so no other node can see the assignment.
\<close>

fun modify_at :: "(node \<Rightarrow> node) \<Rightarrow> node \<Rightarrow> string list \<Rightarrow> node" where
  "modify_at f n [] = f n"
| "modify_at f (File c) (p # ps) = File c"
| "modify_at f (Directory ch) (p # ps) =
     (case map_of ch p of
        None \<Rightarrow> Directory ch
      | Some m \<Rightarrow> Directory (AList.update p (modify_at f m ps) ch))"

definition modify_node :: "(node \<Rightarrow> node) \<Rightarrow> node \<Rightarrow> string \<Rightarrow> node" where
  "modify_node f tree path = modify_at f tree (filter_truthy (split_char CHR ''/'' path))"

text \<open>The order of enumeration.  An array index is the canonical decimal numeral of an
  integer below \<open>2\<^sup>3\<^sup>2 - 1\<close>.  An object enumerates its array-index names first, in ascending
  numeric order, and then its other names in the order in which they were added.\<close>

definition digit_of :: "char \<Rightarrow> nat" where
  "digit_of c = length (takeWhile (\<lambda>d. d \<noteq> c) ''0123456789'')"

definition array_index :: "string \<Rightarrow> nat option" where
  "array_index name =
     (if name \<noteq> [] \<and> list_all (List.member ''0123456789'') name
         \<and> (name = ''0'' \<or> \<not> prefix ''0'' name)
      then (let v = foldl (\<lambda>a c. 10 * a + digit_of c) 0 name
            in if v < 4294967295 then Some v else None)
      else None)"

definition enumerated_before :: "string \<Rightarrow> string \<Rightarrow> bool" where
  "enumerated_before name k =
     (case array_index name of
        None \<Rightarrow> False
      | Some i \<Rightarrow> (case array_index k of None \<Rightarrow> True | Some j \<Rightarrow> i < j))"

fun insert_new :: "string \<Rightarrow> node \<Rightarrow> (string \<times> node) list \<Rightarrow> (string \<times> node) list" where
  "insert_new name new [] = [(name, new)]"
| "insert_new name new (e # ch) =
     (if enumerated_before name (fst e) then (name, new) # e # ch
      else e # insert_new name new ch)"

text \<open>The assignment \<open>children[name] = new\<close>: an own property keeps its place and takes the new
  value; a new name is entered where the enumeration has it.  (The program assigns only
  after reading the same name has found nothing, so the name is never an inherited one.)\<close>

definition set_entry :: "string \<Rightarrow> node \<Rightarrow> (string \<times> node) list \<Rightarrow> (string \<times> node) list" where
  "set_entry name new ch =
     (case map_of ch name of
        Some _ \<Rightarrow> AList.update name new ch
      | None \<Rightarrow> insert_new name new ch)"

definition set_child :: "string \<Rightarrow> node \<Rightarrow> node \<Rightarrow> node" where
  "set_child name new n =
     (case n of Directory ch \<Rightarrow> Directory (set_entry name new ch) | File c \<Rightarrow> File c)"

definition set_content :: "string \<Rightarrow> node \<Rightarrow> node" where
  "set_content c n = (case n of File _ \<Rightarrow> File c | Directory ch \<Rightarrow> Directory ch)"


definition sq :: char where "sq = CHR 0x27"
definition dq :: char where "dq = CHR 0x22"
definition newline :: string where "newline = [CHR 0x0A]"
definition lsquo :: string where "lsquo = [CHR 0xE2, CHR 0x80, CHR 0x98]"
definition rsquo :: string where "rsquo = [CHR 0xE2, CHR 0x80, CHR 0x99]"

text \<open>The tree that \<open>createClonedDirectory\<close> stores under the repository name.\<close>

definition cloned_tree :: "string \<Rightarrow> node" where
  "cloned_tree repoName =
     Directory
       [(''.git'', Directory []),
        (''README.md'',
           File (''# '' @ repoName @ newline @ newline @ ''A repository cloned with the simulator.'')),
        (''src'',
           Directory [(''main.js'', File (''console.log('' @ [dq] @ ''Hello, World!'' @ [dq] @ '');''))])]"

definition createClonedDirectory :: "string \<Rightarrow> string \<Rightarrow> node \<Rightarrow> bool \<times> node" where
  "createClonedDirectory cwd repoName tree =
     (case getNode tree cwd of
        Some (Own (Directory ch)) \<Rightarrow>
          (case child ch repoName of
             Some _ \<Rightarrow> (False, tree)
           | None \<Rightarrow> (True, modify_node (set_child repoName (cloned_tree repoName)) tree cwd))
      | _ \<Rightarrow> (False, tree))"


section \<open>Session state\<close>

text \<open>
  One record holds the state of the \<open>App\<close> component (\<open>history\<close>, \<open>isLoading\<close>, \<open>cwd\<close>), the
  module-level \<open>fileSystem\<close> tree, and the state of the \<open>Terminal\<close> component (\<open>input\<close>,
  \<open>isSearching\<close>, \<open>searchQuery\<close>, and the two references \<open>searchIndex\<close> and
  \<open>commandHistory\<close>).
\<close>

datatype history_item = Command_item string | Output_item string

record session =
  history :: "history_item list"
  isLoading :: bool
  cwd :: string
  fileSystem :: node
  input :: string
  isSearching :: bool
  searchQuery :: string
  searchIndex :: nat
  commandHistory :: "string list"

text \<open>The effect of \<open>Terminal\<close> that follows every change of \<open>history\<close>: the command log is
  the text of the command entries, in order.\<close>

fun command_texts :: "history_item list \<Rightarrow> string list" where
  "command_texts [] = []"
| "command_texts (Command_item c # xs) = c # command_texts xs"
| "command_texts (Output_item c # xs) = command_texts xs"

definition setHistory :: "(history_item list \<Rightarrow> history_item list) \<Rightarrow> session \<Rightarrow> session" where
  "setHistory f s =
     (let h = f (history s) in s\<lparr>history := h, commandHistory := command_texts h\<rparr>)"


section \<open>The file-system built-ins (\<open>handleFileSystemCommand\<close>)\<close>

text \<open>\<open>args[0]\<close>, with \<open>undefined\<close> and the empty string both read as missing.\<close>

definition first_arg :: "string list \<Rightarrow> string option" where
  "first_arg args = (case args of [] \<Rightarrow> None | a # _ \<Rightarrow> if a = [] then None else Some a)"

definition cd_cmd :: "string list \<Rightarrow> session \<Rightarrow> string option \<times> session" where
  "cd_cmd args s =
     (let target = (case first_arg args of None \<Rightarrow> ''/home/kali'' | Some a \<Rightarrow> a);
          newPath = resolvePath (cwd s) target
      in case getNode (fileSystem s) newPath of
           Some (Own (Directory ch)) \<Rightarrow> (Some [], s\<lparr>cwd := newPath\<rparr>)
         | _ \<Rightarrow> (Some (''cd: no such file or directory: '' @ target), s))"

definition ls_cmd :: "string list \<Rightarrow> session \<Rightarrow> string option \<times> session" where
  "ls_cmd args s =
     (case getNode (fileSystem s) (cwd s) of
        Some (Own (Directory ch)) \<Rightarrow>
          (let items = map fst ch;
               showAll = List.member args ''-a'';
               items' = (if \<not> showAll then filter (\<lambda>item. \<not> prefix ''.'' item) items else items)
           in (Some (join newline
                 (map (\<lambda>item. case map_of ch item of
                                  Some (Directory _) \<Rightarrow> item @ ''/''
                                | _ \<Rightarrow> item) items')), s))
      | _ \<Rightarrow> (Some (''ls: cannot access '' @ cwd s @ '': No such file or directory''), s))"

definition cat_cmd :: "string list \<Rightarrow> session \<Rightarrow> string option \<times> session" where
  "cat_cmd args s =
     (case first_arg args of
        None \<Rightarrow> (Some ''cat: missing operand'', s)
      | Some a \<Rightarrow>
          (case getNode (fileSystem s) (resolvePath (cwd s) a) of
             Some (Own (File c)) \<Rightarrow> (Some c, s)
           | Some _ \<Rightarrow> (Some (''cat: '' @ a @ '': Is a directory''), s)
           | None \<Rightarrow> (Some (''cat: '' @ a @ '': No such file or directory''), s)))"

definition mkdir_msg :: "string \<Rightarrow> string \<Rightarrow> string" where
  "mkdir_msg targetPath why =
     ''mkdir: cannot create directory '' @ lsquo @ targetPath @ rsquo @ '': '' @ why"

definition mkdir_cmd :: "string list \<Rightarrow> session \<Rightarrow> string option \<times> session" where
  "mkdir_cmd args s =
     (case first_arg args of
        None \<Rightarrow> (Some ''mkdir: missing operand'', s)
      | Some targetPath \<Rightarrow>
          (let fullPath = resolvePath (cwd s) targetPath
           in case getNode (fileSystem s) fullPath of
                Some _ \<Rightarrow> (Some (mkdir_msg targetPath ''File exists''), s)
              | None \<Rightarrow>
                  (let cut = substring fullPath 0 (lastIndexOf CHR ''/'' fullPath);
                       parentPath = (if cut = [] then ''/'' else cut);
                       newDirName = substring_from fullPath (lastIndexOf CHR ''/'' fullPath + 1)
                   in if newDirName = [] then (Some (mkdir_msg targetPath ''Invalid argument''), s)
                      else case getNode (fileSystem s) parentPath of
                             Some (Own (Directory ch)) \<Rightarrow>
                               (Some [],
                                s\<lparr>fileSystem :=
                                    modify_node (set_child newDirName (Directory []))
                                      (fileSystem s) parentPath\<rparr>)
                           | _ \<Rightarrow> (Some (mkdir_msg targetPath ''No such file or directory''), s))))"

text \<open>The separator of \<open>termux-fix-shebang\<close> is the source's literal \<open>'\\n'\<close>: a backslash
  followed by the letter n, two characters.\<close>

definition shebang_sep :: string where
  "shebang_sep = [CHR 0x5C, CHR ''n'']"

definition termux_shebang :: string where
  "termux_shebang = ''#!/data/data/com.termux/files/usr/bin/python3''"

definition fix_shebang_cmd :: "string list \<Rightarrow> session \<Rightarrow> string option \<times> session" where
  "fix_shebang_cmd args s =
     (case first_arg args of
        None \<Rightarrow> (Some ''usage: termux-fix-shebang <file>'', s)
      | Some fileName \<Rightarrow>
          (let path = resolvePath (cwd s) fileName
           in case getNode (fileSystem s) path of
                None \<Rightarrow> (Some (''termux-fix-shebang: file not found: '' @ fileName), s)
              | Some (Own (File c)) \<Rightarrow>
                  (case split_str shebang_sep c of
                     oldShebang # rest \<Rightarrow>
                       if prefix ''#!'' oldShebang
                       then (Some (''shebang of '' @ fileName @ '' has been rewritten from ''
                                     @ [sq] @ oldShebang @ [sq] @ '' to '' @ [sq] @ termux_shebang @ [sq]),
                             s\<lparr>fileSystem :=
                                 modify_node (set_content (join shebang_sep (termux_shebang # rest)))
                                   (fileSystem s) path\<rparr>)
                       else (Some (fileName @ '' does not have a shebang or is empty.''), s)
                   | [] \<Rightarrow> (Some (fileName @ '' does not have a shebang or is empty.''), s))
              | Some _ \<Rightarrow> (Some (''termux-fix-shebang: not a file: '' @ fileName), s)))"

text \<open>The dispatcher: the line is cut at white space, the first token is the verb (compared in
  lower case) and the others are the arguments.  \<open>None\<close> is the source's \<open>null\<close>: not a
  file-system command.  (\<open>split\<close> never returns the empty array.)\<close>

definition dispatch :: "string \<Rightarrow> string list \<Rightarrow> session \<Rightarrow> string option \<times> session" where
  "dispatch command args s =
     (let c = toLowerCase command
      in if c = ''pwd'' then (Some (cwd s), s)
         else if c = ''cd'' then cd_cmd args s
         else if c = ''ls'' then ls_cmd args s
         else if c = ''cat'' then cat_cmd args s
         else if c = ''mkdir'' then mkdir_cmd args s
         else if c = ''whoami'' then (Some ''kali'', s)
         else if c = ''termux-fix-shebang'' then fix_shebang_cmd args s
         else (None, s))"

definition handleFileSystemCommand :: "string \<Rightarrow> session \<Rightarrow> string option \<times> session" where
  "handleFileSystemCommand fullCommand s =
     (case split_ws fullCommand of
        command # args \<Rightarrow> dispatch command args s
      | [] \<Rightarrow> (None, s))"


section \<open>The scripted git commands of \<open>executeCommand\<close>\<close>

definition progressLines :: "string list" where
  "progressLines =
     [''remote: Enumerating objects: 23, done.'',
      ''remote: Counting objects: 100% (23/23), done.'',
      ''remote: Compressing objects: 100% (13/13), done.'',
      ''remote: Total 23 (delta 5), reused 20 (delta 5), pack-reused 0'',
      ''Receiving objects: 100% (23/23), 4.68 KiB | 4.68 MiB/s, done.'',
      ''Resolving deltas: 100% (5/5), done.'']"

text \<open>\<open>repoUrl.split('/').pop()?.replace('.git', '') || 'repository'\<close>.\<close>

definition repo_name :: "string \<Rightarrow> string" where
  "repo_name repoUrl =
     (let r = replace_first ''.git'' [] (last (split_char CHR ''/'' repoUrl))
      in if r = [] then ''repository'' else r)"

definition push_output :: "string \<Rightarrow> session \<Rightarrow> session" where
  "push_output txt s = setHistory (\<lambda>prev. prev @ [Output_item txt]) s"

text \<open>The update of one streaming step: the entry at \<open>historyIndex\<close> takes the grown text when
  it exists and is an output entry.\<close>

definition set_output :: "nat \<Rightarrow> string \<Rightarrow> history_item list \<Rightarrow> history_item list" where
  "set_output i txt h =
     (if i < length h
      then (case h ! i of Output_item _ \<Rightarrow> h[i := Output_item txt] | Command_item _ \<Rightarrow> h)
      else h)"

definition stream_step :: "nat \<Rightarrow> string \<times> session \<Rightarrow> string \<Rightarrow> string \<times> session" where
  "stream_step historyIndex st line =
     (let currentOutput = fst st @ newline @ line
      in (currentOutput, setHistory (set_output historyIndex currentOutput) (snd st)))"

text \<open>\<open>git clone\<close>: \<open>s0\<close> is the state the callback closed over (its \<open>history\<close> and \<open>cwd\<close>),
  \<open>s1\<close> the state after the command line was appended.  The timed waits between the progress
  lines are left out; the steps happen in the source's order.\<close>

definition git_clone :: "string \<Rightarrow> session \<Rightarrow> session \<Rightarrow> session" where
  "git_clone trimmedCommand s0 s1 =
     (case first_arg (drop 2 (split_ws trimmedCommand)) of
        None \<Rightarrow>
          (push_output ''fatal: You must specify a repository to clone.'' s1)\<lparr>isLoading := False\<rparr>
      | Some repoUrl \<Rightarrow>
          (let repoName = repo_name repoUrl
           in case getNode (fileSystem s1) (cwd s0 @ ''/'' @ repoName) of
                Some _ \<Rightarrow>
                  (push_output (''fatal: destination path '' @ [sq] @ repoName @ [sq]
                       @ '' already exists and is not an empty directory.'') s1)\<lparr>isLoading := False\<rparr>
              | None \<Rightarrow>
                  (let initialOutput = ''Cloning into '' @ [sq] @ repoName @ [sq] @ ''...'';
                       historyIndex = length (history s0) + 1;
                       s2 = push_output initialOutput s1;
                       s3 = snd (foldl (stream_step historyIndex) (initialOutput, s2) progressLines)
                   in s3\<lparr>fileSystem := snd (createClonedDirectory (cwd s0) repoName (fileSystem s3)),
                         isLoading := False\<rparr>)))"

text \<open>The pattern \<open>-m\s+Q([^Q]+)Q\<close> at the start of a string, for a quote character \<open>Q\<close>:
  neither repetition can give up characters, since white space is not a quote and the
  captured class excludes the quote.\<close>

definition match_quoted :: "char \<Rightarrow> string \<Rightarrow> string option" where
  "match_quoted q s =
     (if prefix ''-m'' s
      then (let r = drop 2 s
            in if takeWhile is_space r = [] then None
               else (case dropWhile is_space r of
                       [] \<Rightarrow> None
                     | c # t \<Rightarrow>
                         if c = q
                         then (case dropWhile (\<lambda>x. x \<noteq> q) t of
                                 [] \<Rightarrow> None
                               | _ # _ \<Rightarrow>
                                   if takeWhile (\<lambda>x. x \<noteq> q) t = [] then None
                                   else Some (takeWhile (\<lambda>x. x \<noteq> q) t))
                         else None))
      else None)"

text \<open>\<open>trimmedCommand.match(commitRegex)\<close>, then \<open>match[1] || match[2]\<close>: the leftmost position
  where the double-quoted or else the single-quoted alternative matches.\<close>

fun commit_match :: "string \<Rightarrow> string option" where
  "commit_match [] = None"
| "commit_match (c # cs) =
     (case match_quoted dq (c # cs) of
        Some m \<Rightarrow> Some m
      | None \<Rightarrow>
          (case match_quoted sq (c # cs) of
             Some m \<Rightarrow> Some m
           | None \<Rightarrow> commit_match cs))"

text \<open>
  The results of \<open>Math.random()\<close> are a parameter: \<open>rnd i\<close> is the \<open>i\<close>-th number drawn
  during the command.  A draw is a double in \<open>[0, 1)\<close>: the pair \<open>(m, e)\<close> stands for
  \<open>m / 2\<^sup>e\<close>, and the doubles in \<open>[0, 1)\<close> are the pairs with a significand \<open>m\<close> below
  \<open>2\<^sup>5\<^sup>3\<close> and below \<open>2\<^sup>e\<close>, and \<open>e\<close> at most 1074.
\<close>

type_synonym draw = "nat \<times> nat"

definition is_draw :: "draw \<Rightarrow> bool" where
  "is_draw d \<longleftrightarrow> fst d < 2 ^ 53 \<and> fst d < 2 ^ snd d \<and> snd d \<le> 1074"

text \<open>The number of binary digits of a positive integer.\<close>

fun bit_length :: "nat \<Rightarrow> nat" where
  "bit_length n = (if n = 0 then 0 else Suc (bit_length (n div 2)))"

declare bit_length.simps [simp del]

text \<open>The product of a double \<open>m / 2\<^sup>e\<close> and a small integer \<open>k\<close> is the double nearest to
  \<open>k * m / 2\<^sup>e\<close>, the one with the even significand when two are equally near.  On the
  numerator this is \<open>round53\<close>: an integer of more than 53 binary digits is rounded to its 53
  leading digits.  (The product is at least \<open>2\<^sup>5\<^sup>3 / 2\<^sup>e\<close> when it needs rounding, so it is
  not subnormal.)\<close>

definition round53 :: "nat \<Rightarrow> nat" where
  "round53 n =
     (if n < 2 ^ 53 then n
      else
        let sh = bit_length n - 53;
            q = n div 2 ^ sh;
            r = n mod 2 ^ sh;
            half = 2 ^ (sh - 1)
        in (if r < half \<or> (r = half \<and> even q) then q else q + 1) * 2 ^ sh)"

text \<open>\<open>Math.floor(Math.random() * k)\<close> for the draw \<open>d\<close>.\<close>

definition floor_times :: "nat \<Rightarrow> draw \<Rightarrow> nat" where
  "floor_times k d = round53 (k * fst d) div 2 ^ snd d"

definition hex_char :: "draw \<Rightarrow> char" where
  "hex_char d = ''0123456789abcdef'' ! floor_times 16 d"

definition commit_hash :: "(nat \<Rightarrow> draw) \<Rightarrow> string" where
  "commit_hash rnd = map (\<lambda>i. hex_char (rnd i)) [0..<7]"

definition files_changed :: "(nat \<Rightarrow> draw) \<Rightarrow> nat" where
  "files_changed rnd = floor_times 3 (rnd 7) + 1"

definition insertions :: "(nat \<Rightarrow> draw) \<Rightarrow> nat" where
  "insertions rnd = floor_times 20 (rnd 8) + 1"

definition missing_message :: string where
  "missing_message =
     ''fatal: You must specify a commit message with -m '' @ [dq] @ ''<message>'' @ [dq]"

definition commit_output :: "(nat \<Rightarrow> draw) \<Rightarrow> string \<Rightarrow> string" where
  "commit_output rnd trimmedCommand =
     (case commit_match trimmedCommand of
        None \<Rightarrow> missing_message
      | Some message \<Rightarrow>
          if message = [] then ''fatal: commit message is empty.''
          else ''[main '' @ commit_hash rnd @ ''] '' @ message @ newline @ '' ''
                 @ show_nat (files_changed rnd) @ '' file changed, ''
                 @ show_nat (insertions rnd) @ '' insertions(+)'')"

definition git_commit :: "(nat \<Rightarrow> draw) \<Rightarrow> string \<Rightarrow> session \<Rightarrow> session" where
  "git_commit rnd trimmedCommand s1 =
     (push_output (commit_output rnd trimmedCommand) s1)\<lparr>isLoading := False\<rparr>"

text \<open>\<open>executeCommand\<close>.  \<open>git log\<close>, \<open>git diff\<close>, \<open>git fetch\<close> and the external responder are
  not part of this development: a line that reaches them is \<open>Delegated\<close>.\<close>

datatype outcome = Finished session | Delegated session

definition executeCommand :: "(nat \<Rightarrow> draw) \<Rightarrow> string \<Rightarrow> session \<Rightarrow> outcome" where
  "executeCommand rnd command s0 =
     (let trimmedCommand = trim command
      in if trimmedCommand = [] then Finished s0
         else
           let s1 = (setHistory (\<lambda>prev. prev @ [Command_item trimmedCommand]) s0)\<lparr>isLoading := True\<rparr>
           in if toLowerCase trimmedCommand = ''clear''
              then Finished ((setHistory (\<lambda>prev. []) s1)\<lparr>isLoading := False\<rparr>)
              else if prefix ''git clone'' trimmedCommand
              then Finished (git_clone trimmedCommand s0 s1)
              else if prefix ''git commit'' trimmedCommand
              then Finished (git_commit rnd trimmedCommand s1)
              else if toLowerCase trimmedCommand = ''git log''
                      \<or> toLowerCase trimmedCommand = ''git diff''
                      \<or> toLowerCase trimmedCommand = ''git fetch''
              then Delegated s1
              else (case handleFileSystemCommand trimmedCommand s1 of
                      (Some fileSystemOutput, s2) \<Rightarrow>
                        Finished ((if fileSystemOutput \<noteq> [] then push_output fileSystemOutput s2
                                   else s2)\<lparr>isLoading := False\<rparr>)
                    | (None, s2) \<Rightarrow> Delegated s2))"


section \<open>The line editor (\<open>components/Terminal.tsx\<close>)\<close>

datatype error = TypeError

record key_event =
  key :: string
  ctrlKey :: bool
  metaKey :: bool
  altKey :: bool

definition commands :: "string list" where
  "commands =
     [''ls'', ''pwd'', ''whoami'', ''neofetch'', ''apt update'',
      ''apt install'', ''ping'', ''help'', ''clear'', ''cd'', ''cat'', ''mkdir'',
      ''git status'', ''git log'', ''git clone'', ''git push'', ''git pull'', ''git branch'',
      ''git commit'', ''git diff'', ''git fetch'',
      ''termux-fix-shebang'']"

text \<open>The loop of \<open>performSearch\<close>, entered with \<open>i + 1\<close>: reading an index outside the log
  yields \<open>undefined\<close>, and calling \<open>includes\<close> on it throws.\<close>

fun scan_back :: "string list \<Rightarrow> string \<Rightarrow> nat \<Rightarrow> error + nat option" where
  "scan_back entries q 0 = Inr None"
| "scan_back entries q (Suc i) =
     (if i < length entries
      then (if includes_str (entries ! i) q then Inr (Some i) else scan_back entries q i)
      else Inl TypeError)"

definition performSearch :: "string \<Rightarrow> nat \<Rightarrow> session \<Rightarrow> error + session" where
  "performSearch query startIndex s =
     (if query = [] then Inr (s\<lparr>input := []\<rparr>)
      else (case scan_back (commandHistory s) query startIndex of
              Inl e \<Rightarrow> Inl e
            | Inr None \<Rightarrow> Inr s
            | Inr (Some i) \<Rightarrow> Inr (s\<lparr>input := commandHistory s ! i, searchIndex := i\<rparr>)))"

definition exitSearchMode :: "session \<Rightarrow> session" where
  "exitSearchMode s = s\<lparr>isSearching := False, searchQuery := []\<rparr>"

definition handleAutocompleteSuggestions :: "string \<Rightarrow> string list \<Rightarrow> session \<Rightarrow> session" where
  "handleAutocompleteSuggestions command suggestions s =
     setHistory (\<lambda>prev. prev @ [Command_item command, Output_item (join ''   '' suggestions)]) s"

definition handleKeyDown :: "key_event \<Rightarrow> session \<Rightarrow> error + session" where
  "handleKeyDown e s =
     (if isSearching s then
        (if ctrlKey e \<and> key e = ''r'' then performSearch (searchQuery s) (searchIndex s) s
         else if key e = ''Backspace'' then
           (let newQuery = butlast (searchQuery s)
            in performSearch newQuery (length (commandHistory s))
                 (s\<lparr>searchQuery := newQuery, searchIndex := length (commandHistory s)\<rparr>))
         else if length (key e) = 1 \<and> \<not> ctrlKey e \<and> \<not> metaKey e \<and> \<not> altKey e then
           (let newQuery = searchQuery s @ key e
            in performSearch newQuery (length (commandHistory s))
                 (s\<lparr>searchQuery := newQuery, searchIndex := length (commandHistory s)\<rparr>))
         else if key e = ''Escape'' \<or> prefix ''Arrow'' (key e) then Inr (exitSearchMode s)
         else if key e = ''Enter'' then Inr (exitSearchMode s)
         else Inr s)
      else if ctrlKey e \<and> key e = ''r'' then
        Inr (s\<lparr>isSearching := True, searchQuery := [], input := [],
               searchIndex := length (commandHistory s)\<rparr>)
      else if key e = ''Tab'' then
        (let trimmedInput = trim (input s)
         in if trimmedInput = [] then Inr s
            else
              let matches = filter (\<lambda>cmd. prefix trimmedInput cmd) commands
              in if length matches = 1 then Inr (s\<lparr>input := matches ! 0 @ '' ''\<rparr>)
                 else if length matches > 1
                 then Inr (handleAutocompleteSuggestions (input s) matches s)
                 else Inr s)
      else Inr s)"


section \<open>Path resolution as the specification words it\<close>

text \<open>
  The expression is cut at every \<open>/\<close> and empty segments are dropped; the resolved segments
  are a stack (top first) on which \<open>.\<close> does nothing, \<open>..\<close> pops (nothing, when the stack is
  empty) and any other segment is pushed; the answer is every segment preceded by \<open>/\<close>, and
  \<open>/\<close> alone for the empty stack.
\<close>

function segments_of :: "string \<Rightarrow> string list" where
  "segments_of s =
     (case dropWhile (\<lambda>c. c = CHR ''/'') s of
        [] \<Rightarrow> []
      | r # rs \<Rightarrow> takeWhile (\<lambda>c. c \<noteq> CHR ''/'') (r # rs)
                 # segments_of (dropWhile (\<lambda>c. c \<noteq> CHR ''/'') rs))"
  by pat_completeness auto
termination
proof (relation "measure length", goal_cases)
  case 1
  show ?case by simp
next
  case (2 s r rs)
  have "length (dropWhile (\<lambda>c. c \<noteq> CHR ''/'') rs) \<le> length rs"
    by (rule length_dropWhile_le)
  moreover have "length (r # rs) \<le> length s"
    using length_dropWhile_le [of "\<lambda>c. c = CHR ''/''" s] 2 by simp
  ultimately show ?case by simp
qed

declare segments_of.simps [simp del]

fun resolve_stack :: "string list \<Rightarrow> string list \<Rightarrow> string list" where
  "resolve_stack st [] = st"
| "resolve_stack st (seg # segs) =
     (if seg = ''.'' then resolve_stack st segs
      else if seg = ''..'' then resolve_stack (case st of [] \<Rightarrow> [] | _ # st' \<Rightarrow> st') segs
      else resolve_stack (seg # st) segs)"

definition serialize :: "string list \<Rightarrow> string" where
  "serialize segs = (if segs = [] then ''/'' else concat (map (\<lambda>s. CHR ''/'' # s) segs))"

definition resolve_spec :: "string \<Rightarrow> string \<Rightarrow> string" where
  "resolve_spec wd path =
     serialize (rev (resolve_stack
        (if prefix ''/'' path then [] else rev (segments_of wd)) (segments_of path)))"


section \<open>Notions used to state the properties\<close>

text \<open>What a lookup found: a directory node; a node of either kind.\<close>

fun is_directory :: "found option \<Rightarrow> bool" where
  "is_directory (Some (Own (Directory ch))) = True"
| "is_directory _ = False"

fun is_node :: "found option \<Rightarrow> bool" where
  "is_node (Some (Own n)) = True"
| "is_node _ = False"

text \<open>The session in which a command ends.\<close>

fun session_of :: "outcome \<Rightarrow> session" where
  "session_of (Finished s) = s"
| "session_of (Delegated s) = s"

text \<open>How \<open>ls\<close> shows one entry of a directory.\<close>

fun entry_label :: "string \<times> node \<Rightarrow> string" where
  "entry_label (name, Directory ch) = name @ ''/''"
| "entry_label (name, File c) = name"

text \<open>Path segments as \<open>resolvePath\<close> produces them: not empty, and without \<open>/\<close>.\<close>

abbreviation clean_parts :: "string list \<Rightarrow> bool" where
  "clean_parts parts \<equiv> (\<forall>x \<in> set parts. x \<noteq> [] \<and> CHR ''/'' \<notin> set x)"

text \<open>A command line carries a quoted message when it contains \<open>-m\<close>, some white space, and a
  non-empty text between two quotes of the same kind that has no such quote inside.\<close>

definition quoted_message_at :: "char \<Rightarrow> string \<Rightarrow> bool" where
  "quoted_message_at q line \<longleftrightarrow>
     (\<exists>pre ws msg post.
        line = pre @ ''-m'' @ ws @ q # msg @ q # post
        \<and> ws \<noteq> [] \<and> (\<forall>c \<in> set ws. is_space c) \<and> msg \<noteq> [] \<and> q \<notin> set msg)"

definition has_message :: "string \<Rightarrow> bool" where
  "has_message line \<longleftrightarrow> quoted_message_at dq line \<or> quoted_message_at sq line"

text \<open>The wording "a \<open>-m\<close> flag followed by a quoted message" taken at its word: the opening
  quote may come directly after the flag.\<close>

definition quoted_message_after_flag :: "char \<Rightarrow> string \<Rightarrow> bool" where
  "quoted_message_after_flag q line \<longleftrightarrow>
     (\<exists>pre msg post. line = pre @ ''-m'' @ q # msg @ q # post \<and> msg \<noteq> [] \<and> q \<notin> set msg)"

text \<open>A run of at least \<open>n\<close> consecutive lower-case hexadecimal digits somewhere in a text.\<close>

definition is_hex :: "char \<Rightarrow> bool" where
  "is_hex c \<longleftrightarrow> c \<in> set ''0123456789abcdef''"

fun has_hex_run :: "nat \<Rightarrow> string \<Rightarrow> bool" where
  "has_hex_run n [] = (n = 0)"
| "has_hex_run n (c # cs) = (n \<le> length (takeWhile is_hex (c # cs)) \<or> has_hex_run n cs)"


section \<open>A small session for concrete runs\<close>

text \<open>A tree shaped like the seed tree of the simulator, with the file contents cut short, and
  the session as it starts: empty history, working directory \<open>/home/kali\<close>.\<close>

definition example_home :: "(string \<times> node) list" where
  "example_home =
     [(''README.md'', File ''Welcome to the Kali Linux command simulator!''),
      (''chroot.py'', File (''#!/bin/python3'' @ newline @ newline @ ''# Usage:'')),
      (''documents'', Directory [(''project_plan.txt'', File ''Phase 1: Initial setup.'')]),
      (''.secret_file'', File ''This is a hidden file. You found it!'')]"

definition example_tree :: node where
  "example_tree = Directory [(''home'', Directory [(''kali'', Directory example_home)])]"

definition example_session :: session where
  "example_session =
     \<lparr>history = [], isLoading = False, cwd = ''/home/kali'', fileSystem = example_tree,
      input = [], isSearching = False, searchQuery = [], searchIndex = 0,
      commandHistory = []\<rparr>"


text \<open>Keys without and with the control modifier, and a session with three commands in the
  log that has just entered reverse search.\<close>

definition plain_key :: "string \<Rightarrow> key_event" where
  "plain_key k = \<lparr>key = k, ctrlKey = False, metaKey = False, altKey = False\<rparr>"

definition ctrl_key :: "string \<Rightarrow> key_event" where
  "ctrl_key k = \<lparr>key = k, ctrlKey = True, metaKey = False, altKey = False\<rparr>"

definition search_session :: session where
  "search_session =
     example_session
       \<lparr>history := [Command_item ''ls'', Command_item ''cat a.txt'', Command_item ''ls -a''],
        commandHistory := [''ls'', ''cat a.txt'', ''ls -a''],
        isSearching := True, searchIndex := 3\<rparr>"

section \<open>Splitting and joining paths\<close>

lemma split_char_not_Nil: "split_char c s \<noteq> []"
  by (induction s) (auto split: list.splits)

lemma split_char_no_sep: "c \<notin> set a \<Longrightarrow> split_char c a = [a]"
  by (induction a) auto

lemma split_char_append_sep: "c \<notin> set a \<Longrightarrow> split_char c (a @ c # t) = a # split_char c t"
  by (induction a) auto

lemma segs_dropWhile_sep:
  "filter_truthy (split_char c (dropWhile (\<lambda>x. x = c) s)) = filter_truthy (split_char c s)"
  by (induction s) (auto simp: filter_truthy_def)

lemma segs_head:
  assumes "r \<noteq> c"
  shows "filter_truthy (split_char c (r # rs)) =
         takeWhile (\<lambda>x. x \<noteq> c) (r # rs) # filter_truthy (split_char c (dropWhile (\<lambda>x. x \<noteq> c) rs))"
proof -
  define tw where "tw = takeWhile (\<lambda>x. x \<noteq> c) (r # rs)"
  define dw where "dw = dropWhile (\<lambda>x. x \<noteq> c) (r # rs)"
  have notin: "c \<notin> set tw" unfolding tw_def by (metis (mono_tags, lifting) set_takeWhileD)
  have ne: "tw \<noteq> []" using assms by (simp add: tw_def)
  have dw: "dw = dropWhile (\<lambda>x. x \<noteq> c) rs" using assms by (simp add: dw_def)
  have whole: "r # rs = tw @ dw" unfolding tw_def dw_def by (simp only: takeWhile_dropWhile_id)
  have "filter_truthy (split_char c (r # rs)) = tw # filter_truthy (split_char c dw)"
  proof (cases dw)
    case Nil
    have "split_char c (r # rs) = [tw]"
      unfolding whole Nil append_Nil2 by (rule split_char_no_sep [OF notin])
    then show ?thesis using ne Nil by (simp add: filter_truthy_def)
  next
    case (Cons d t)
    have "d = hd dw" using Cons by simp
    moreover have "\<not> (hd dw \<noteq> c)"
      unfolding dw_def by (rule hd_dropWhile) (use Cons dw_def in simp)
    ultimately have "d = c" by simp
    have "split_char c (r # rs) = tw # split_char c t"
      unfolding whole Cons \<open>d = c\<close> by (rule split_char_append_sep [OF notin])
    then show ?thesis using ne Cons \<open>d = c\<close> by (simp add: filter_truthy_def)
  qed
  then show ?thesis unfolding dw tw_def .
qed

lemma segs_all_sep:
  "dropWhile (\<lambda>x. x = c) s = [] \<Longrightarrow> filter_truthy (split_char c s) = []"
  by (induction s) (auto simp: filter_truthy_def split: if_splits)

lemma segments_of_split: "segments_of s = filter_truthy (split_char CHR ''/'' s)"
proof (induction s rule: segments_of.induct)
  case (1 s)
  show ?case
  proof (cases "dropWhile (\<lambda>c. c = CHR ''/'') s")
    case Nil
    have "segments_of s = []" by (subst segments_of.simps) (simp only: Nil list.case)
    then show ?thesis using segs_all_sep [OF Nil] by simp
  next
    case (Cons r rs)
    have "r = hd (dropWhile (\<lambda>c. c = CHR ''/'') s)" using Cons by simp
    moreover have "\<not> (hd (dropWhile (\<lambda>c. c = CHR ''/'') s) = CHR ''/'')"
      by (rule hd_dropWhile) (use Cons in simp)
    ultimately have r: "r \<noteq> CHR ''/''" by simp
    have "segments_of s = takeWhile (\<lambda>c. c \<noteq> CHR ''/'') (r # rs) # segments_of (dropWhile (\<lambda>c. c \<noteq> CHR ''/'') rs)"
      by (subst segments_of.simps) (simp only: Cons list.case)
    also have "segments_of (dropWhile (\<lambda>c. c \<noteq> CHR ''/'') rs) = filter_truthy (split_char CHR ''/'' (dropWhile (\<lambda>c. c \<noteq> CHR ''/'') rs))"
      using 1 [OF Cons] .
    also have "takeWhile (\<lambda>c. c \<noteq> CHR ''/'') (r # rs) # filter_truthy (split_char CHR ''/'' (dropWhile (\<lambda>c. c \<noteq> CHR ''/'') rs))
        = filter_truthy (split_char CHR ''/'' (r # rs))"
      using segs_head [OF r, of rs] by simp
    also have "\<dots> = filter_truthy (split_char CHR ''/'' s)"
      using segs_dropWhile_sep [of "CHR ''/''" s] Cons by simp
    finally show ?thesis .
  qed
qed

lemma foldl_resolve_stack:
  "foldl resolve_step cur parts = rev (resolve_stack (rev cur) parts)"
proof (induction parts arbitrary: cur)
  case Nil
  show ?case by simp
next
  case (Cons p ps)
  have pop: "rev (butlast cur) = (case rev cur of [] \<Rightarrow> [] | _ # st' \<Rightarrow> st')"
    by (cases cur rule: rev_cases) simp_all
  show ?case using Cons [of "resolve_step cur p"] pop
    by (simp add: resolve_step_def)
qed

lemma slash_join_serialize: "CHR ''/'' # join ''/'' xs = serialize xs"
  by (induction "''/''" xs rule: join.induct) (simp_all add: serialize_def)


section \<open>White space and lower case beyond ASCII\<close>

text \<open>The no-break space separates tokens, is trimmed and is accepted between \<open>-m\<close> and the
  quote; a capital letter with an accent has a lower-case form.\<close>

lemma no_break_space_examples:
  "trim (CHR 0xA0 # ''who'' @ [CHR 0xA0]) = ''who''"
  "split_ws (''git clone'' @ [CHR 0xA0] @ ''https://example.com/sample.git'')
     = [''git'', ''clone'', ''https://example.com/sample.git'']"
  "commit_match (''git commit -m'' @ [CHR 0xA0, dq] @ ''x'' @ [dq]) = Some ''x''"
  "toLowerCase [CHR 0xC9, CHR ''D'', CHR 0xD7] = [CHR 0xE9, CHR ''d'', CHR 0xD7]"
  by code_simp+


section \<open>Path resolution\<close>

lemma resolvePath_eq_spec:
  "resolvePath wd path = (if path = ''~'' then ''/home/kali'' else resolve_spec wd path)"
  unfolding resolvePath_def resolve_spec_def Let_def
  by (simp add: segments_of_split foldl_resolve_stack slash_join_serialize filter_truthy_def)

text \<open>
  C6 (as amended).  For every working directory and every path expression other than the
  single character \<open>~\<close>, \<open>resolvePath\<close> returns what the specification's procedure returns:
  the expression cut at \<open>/\<close> without its empty segments, \<open>.\<close> skipped, \<open>..\<close> popping the last
  resolved segment (and nothing at the root), every other segment pushed, starting from the
  root for an expression that begins with \<open>/\<close> and from the working directory otherwise, and
  the result written as \<open>/\<close> followed by the segments joined with \<open>/\<close>.  The expression \<open>~\<close>
  is answered with \<open>/home/kali\<close> before any segment is looked at.
\<close>

theorem resolvePath_refines_spec:
  "resolvePath wd path = (if path = ''~'' then ''/home/kali'' else resolve_spec wd path)"
  by (rule resolvePath_eq_spec)

theorem resolvePath_refines_spec_witness:
  "resolvePath ''/home/kali'' ''../../../..//a/./b/'' = ''/a/b''
   \<and> resolve_spec ''/home/kali'' ''../../../..//a/./b/'' = ''/a/b''"
  using resolvePath_refines_spec [of "''/home/kali''" "''../../../..//a/./b/''"]
  by (simp add: resolvePath_def filter_truthy_def resolve_step_def)

text \<open>C6 as stated: at the expression \<open>~\<close> the code does not push the segment.\<close>

theorem resolvePath_tilde_counterexample:
  "resolvePath ''/tmp'' ''~'' = ''/home/kali'' \<and> resolve_spec ''/tmp'' ''~'' = ''/tmp/~''"
  by (simp add: resolvePath_def resolve_spec_def serialize_def segments_of_split filter_truthy_def)


section \<open>The built-in \<open>cd\<close>\<close>

text \<open>A command line reaches a built-in through its tokens.\<close>

lemma handle_tokens:
  "split_ws line = command # args \<Longrightarrow> handleFileSystemCommand line s = dispatch command args s"
  by (simp add: handleFileSystemCommand_def)

lemma handle_cd_example:
  "handleFileSystemCommand ''cd  documents'' example_session
     = dispatch ''cd'' [''documents''] example_session"
  by (rule handle_tokens) code_simp

lemma dispatch_cd: "dispatch ''cd'' args s = cd_cmd args s"
  by (simp add: dispatch_def toLowerCase_def to_lower_def)

lemma cd_fails:
  "\<not> is_directory (getNode (fileSystem s) (resolvePath (cwd s) target)) \<Longrightarrow>
   (case first_arg args of None \<Rightarrow> ''/home/kali'' | Some a \<Rightarrow> a) = target \<Longrightarrow>
   cd_cmd args s = (Some (''cd: no such file or directory: '' @ target), s)"
  by (cases "getNode (fileSystem s) (resolvePath (cwd s) target)" rule: is_directory.cases)
     (simp_all add: cd_cmd_def)

lemma cd_succeeds:
  "is_directory (getNode (fileSystem s) (resolvePath (cwd s) target)) \<Longrightarrow>
   (case first_arg args of None \<Rightarrow> ''/home/kali'' | Some a \<Rightarrow> a) = target \<Longrightarrow>
   cd_cmd args s = (Some [], s\<lparr>cwd := resolvePath (cwd s) target\<rparr>)"
  by (cases "getNode (fileSystem s) (resolvePath (cwd s) target)" rule: is_directory.cases)
     (simp_all add: cd_cmd_def)

text \<open>
  C4.  Let the target be the first argument, or \<open>/home/kali\<close> when there is none.  When the
  resolved target is missing or is not a directory, \<open>cd\<close> answers exactly
  \<open>cd: no such file or directory: <target>\<close> and returns the session as it was (the working
  directory with it), and the same command run again on the returned session gives the same
  message and the same session.  When the resolved target is a directory, the working
  directory becomes the resolved path and the output is empty.  \<open>cd\<close> without an argument is
  \<open>cd /home/kali\<close>.
\<close>

theorem cd_builtin:
  fixes args :: "string list" and s :: session
  defines "target \<equiv> (case first_arg args of None \<Rightarrow> ''/home/kali'' | Some a \<Rightarrow> a)"
  shows "(\<not> is_directory (getNode (fileSystem s) (resolvePath (cwd s) target)) \<longrightarrow>
            dispatch ''cd'' args s = (Some (''cd: no such file or directory: '' @ target), s)
          \<and> dispatch ''cd'' args (snd (dispatch ''cd'' args s))
              = (Some (''cd: no such file or directory: '' @ target), s))
       \<and> (is_directory (getNode (fileSystem s) (resolvePath (cwd s) target)) \<longrightarrow>
            dispatch ''cd'' args s = (Some [], s\<lparr>cwd := resolvePath (cwd s) target\<rparr>))
       \<and> dispatch ''cd'' [] s = dispatch ''cd'' [''/home/kali''] s"
proof (intro conjI impI)
  assume bad: "\<not> is_directory (getNode (fileSystem s) (resolvePath (cwd s) target))"
  show first: "dispatch ''cd'' args s = (Some (''cd: no such file or directory: '' @ target), s)"
    unfolding dispatch_cd by (rule cd_fails [OF bad]) (simp add: target_def)
  show "dispatch ''cd'' args (snd (dispatch ''cd'' args s))
          = (Some (''cd: no such file or directory: '' @ target), s)"
    using first by simp
next
  assume "is_directory (getNode (fileSystem s) (resolvePath (cwd s) target))"
  then show "dispatch ''cd'' args s = (Some [], s\<lparr>cwd := resolvePath (cwd s) target\<rparr>)"
    unfolding dispatch_cd by (rule cd_succeeds) (simp add: target_def)
next
  show "dispatch ''cd'' [] s = dispatch ''cd'' [''/home/kali''] s"
    by (simp add: dispatch_cd cd_cmd_def first_arg_def)
qed

theorem cd_builtin_witness:
  "\<not> is_directory (getNode (fileSystem example_session)
        (resolvePath (cwd example_session) ''nowhere''))
   \<and> dispatch ''cd'' [''nowhere''] example_session
       = (Some ''cd: no such file or directory: nowhere'', example_session)
   \<and> is_directory (getNode (fileSystem example_session)
        (resolvePath (cwd example_session) ''documents/../documents''))
   \<and> dispatch ''cd'' [''documents/../documents''] example_session
       = (Some [], example_session\<lparr>cwd := ''/home/kali/documents''\<rparr>)"
proof -
  have bad: "\<not> is_directory (getNode (fileSystem example_session)
        (resolvePath (cwd example_session) ''nowhere''))"
    by code_simp
  have good: "is_directory (getNode (fileSystem example_session)
        (resolvePath (cwd example_session) ''documents/../documents''))"
    by code_simp
  have path: "resolvePath (cwd example_session) ''documents/../documents'' = ''/home/kali/documents''"
    by code_simp
  have "dispatch ''cd'' [''nowhere''] example_session
       = (Some ''cd: no such file or directory: nowhere'', example_session)"
    using cd_builtin [where args = "[''nowhere'']" and s = example_session] bad by (simp add: first_arg_def)
  moreover have "dispatch ''cd'' [''documents/../documents''] example_session
       = (Some [], example_session\<lparr>cwd := ''/home/kali/documents''\<rparr>)"
    using cd_builtin [where args = "[''documents/../documents'']" and s = example_session] good path
    by (simp add: first_arg_def)
  ultimately show ?thesis using bad good by simp
qed


section \<open>The built-in \<open>ls\<close>\<close>

lemma dispatch_ls: "dispatch ''ls'' args s = ls_cmd args s"
  by (simp add: dispatch_def toLowerCase_def to_lower_def)

lemma ls_depends_on_flag:
  "ls_cmd args s = ls_cmd (if ''-a'' \<in> set args then [''-a''] else []) s"
  by (simp add: ls_cmd_def Let_def split: option.splits found.splits node.splits)

lemma label_of_lookup:
  "distinct (map fst ch) \<Longrightarrow> e \<in> set ch \<Longrightarrow>
   (case map_of ch (fst e) of Some (Directory _) \<Rightarrow> fst e @ ''/'' | _ \<Rightarrow> fst e) = entry_label e"
  by (cases e; cases "snd e") (auto split: option.splits found.splits node.splits)

lemma labels_of_items:
  assumes "distinct (map fst ch)" "set es \<subseteq> set ch"
  shows "map (\<lambda>item. case map_of ch item of Some (Directory _) \<Rightarrow> item @ ''/'' | _ \<Rightarrow> item) (map fst es)
         = map entry_label es"
  using assms(2) by (induction es) (simp_all add: label_of_lookup [OF assms(1)])

lemma filter_names: "filter P (map fst ch) = map fst (filter (\<lambda>e. P (fst e)) ch)"
  by (induction ch) auto

lemma ls_listing:
  assumes "getNode (fileSystem s) (cwd s) = Some (Own (Directory ch))" "distinct (map fst ch)"
  shows "ls_cmd args s =
    (Some (join newline (map entry_label
        (filter (\<lambda>e. ''-a'' \<in> set args \<or> \<not> prefix ''.'' (fst e)) ch))), s)"
proof (cases "''-a'' \<in> set args")
  case True
  have L: "map (\<lambda>item. case map_of ch item of Some (Directory _) \<Rightarrow> item @ ''/'' | _ \<Rightarrow> item) (map fst ch)
         = map entry_label ch"
    by (rule labels_of_items [OF assms(2)]) simp
  show ?thesis using True
    by (simp del: map_map add: ls_cmd_def assms(1) Let_def L)
next
  case False
  have L: "map (\<lambda>item. case map_of ch item of Some (Directory _) \<Rightarrow> item @ ''/'' | _ \<Rightarrow> item)
             (map fst (filter (\<lambda>e. \<not> prefix ''.'' (fst e)) ch))
         = map entry_label (filter (\<lambda>e. \<not> prefix ''.'' (fst e)) ch)"
    by (rule labels_of_items [OF assms(2)]) simp
  show ?thesis using False
    by (simp del: map_map add: ls_cmd_def assms(1) filter_names Let_def L)
qed

text \<open>
  C10.  Whatever the arguments, \<open>ls\<close> answers as \<open>ls\<close> alone does, or as \<open>ls -a\<close> does when
  \<open>-a\<close> is among the arguments at any position; it leaves the session as it was.  When the
  working directory resolves to a directory, the output is one line per entry of that
  directory, in the directory's order, hidden names left out unless \<open>-a\<close> is given, and
  \<open>/\<close> after the name of a directory; when it does not, the only message is the one about
  the working directory itself.  No operand is resolved, listed or reported.
\<close>

theorem ls_lists_cwd:
  "dispatch ''ls'' args s = dispatch ''ls'' (if ''-a'' \<in> set args then [''-a''] else []) s
   \<and> snd (dispatch ''ls'' args s) = s
   \<and> (\<forall>ch. getNode (fileSystem s) (cwd s) = Some (Own (Directory ch)) \<and> distinct (map fst ch) \<longrightarrow>
         fst (dispatch ''ls'' args s) =
           Some (join newline (map entry_label
             (filter (\<lambda>e. ''-a'' \<in> set args \<or> \<not> prefix ''.'' (fst e)) ch))))
   \<and> (\<not> is_directory (getNode (fileSystem s) (cwd s)) \<longrightarrow>
         fst (dispatch ''ls'' args s) =
           Some (''ls: cannot access '' @ cwd s @ '': No such file or directory''))"
proof (intro conjI allI impI)
  show "dispatch ''ls'' args s = dispatch ''ls'' (if ''-a'' \<in> set args then [''-a''] else []) s"
    unfolding dispatch_ls by (rule ls_depends_on_flag)
  show "snd (dispatch ''ls'' args s) = s"
    by (simp add: dispatch_ls ls_cmd_def Let_def split: option.splits found.splits node.splits)
next
  fix ch
  assume "getNode (fileSystem s) (cwd s) = Some (Own (Directory ch)) \<and> distinct (map fst ch)"
  then show "fst (dispatch ''ls'' args s) =
           Some (join newline (map entry_label
             (filter (\<lambda>e. ''-a'' \<in> set args \<or> \<not> prefix ''.'' (fst e)) ch)))"
    by (simp add: dispatch_ls ls_listing)
next
  assume "\<not> is_directory (getNode (fileSystem s) (cwd s))"
  then show "fst (dispatch ''ls'' args s) =
           Some (''ls: cannot access '' @ cwd s @ '': No such file or directory'')"
    by (cases "getNode (fileSystem s) (cwd s)" rule: is_directory.cases)
       (simp_all add: dispatch_ls ls_cmd_def)
qed

theorem ls_lists_cwd_witness:
  "getNode (fileSystem example_session) (cwd example_session) = Some (Own (Directory example_home))
   \<and> distinct (map fst example_home)
   \<and> fst (dispatch ''ls'' [''/nowhere'', ''-a'', ''documents''] example_session)
       = Some (''README.md'' @ newline @ ''chroot.py'' @ newline @ ''documents/'' @ newline
               @ ''.secret_file'')
   \<and> fst (dispatch ''ls'' [''/nowhere''] example_session)
       = Some (''README.md'' @ newline @ ''chroot.py'' @ newline @ ''documents/'')"
proof -
  have dir: "getNode (fileSystem example_session) (cwd example_session)
               = Some (Own (Directory example_home))"
    by code_simp
  have dist: "distinct (map fst example_home)"
    by code_simp
  have all: "join newline (map entry_label
               (filter (\<lambda>e. ''-a'' \<in> set [''/nowhere'', ''-a'', ''documents'']
                              \<or> \<not> prefix ''.'' (fst e)) example_home))
             = ''README.md'' @ newline @ ''chroot.py'' @ newline @ ''documents/'' @ newline
               @ ''.secret_file''"
    by code_simp
  have visible: "join newline (map entry_label
               (filter (\<lambda>e. ''-a'' \<in> set [''/nowhere''] \<or> \<not> prefix ''.'' (fst e)) example_home))
             = ''README.md'' @ newline @ ''chroot.py'' @ newline @ ''documents/''"
    by code_simp
  have "fst (dispatch ''ls'' [''/nowhere'', ''-a'', ''documents''] example_session)
       = Some (''README.md'' @ newline @ ''chroot.py'' @ newline @ ''documents/'' @ newline
               @ ''.secret_file'')"
    using ls_lists_cwd [of "[''/nowhere'', ''-a'', ''documents'']" example_session] dir dist
    unfolding all [symmetric] by blast
  moreover have "fst (dispatch ''ls'' [''/nowhere''] example_session)
       = Some (''README.md'' @ newline @ ''chroot.py'' @ newline @ ''documents/'')"
    using ls_lists_cwd [of "[''/nowhere'']" example_session] dir dist
    unfolding visible [symmetric] by blast
  ultimately show ?thesis using dir dist by simp
qed


section \<open>Resolved paths, their parents and the tree\<close>

lemma split_char_pieces: "x \<in> set (split_char c s) \<Longrightarrow> c \<notin> set x"
  by (induction s arbitrary: x) (auto split: if_splits list.splits)

lemma segs_clean_parts: "clean_parts (filter_truthy (split_char CHR ''/'' s))"
  by (auto simp: filter_truthy_def dest: split_char_pieces)

lemma resolve_stack_clean_parts: "clean_parts st \<Longrightarrow> clean_parts segs \<Longrightarrow> clean_parts (resolve_stack st segs)"
proof (induction st segs rule: resolve_stack.induct)
  case (1 st)
  then show ?case by simp
next
  case (2 st seg segs)
  have pop: "clean_parts (case st of [] \<Rightarrow> [] | _ # st' \<Rightarrow> st')"
    using 2(4) by (cases st) auto
  show ?case using 2 pop by auto
qed

lemma resolvePath_parts:
  "\<exists>parts. clean_parts parts \<and> resolvePath wd p = serialize parts"
proof (cases "p = ''~''")
  case True
  have "resolvePath wd p = serialize [''home'', ''kali'']"
    using True by (simp add: resolvePath_eq_spec serialize_def)
  moreover have "clean_parts [''home'', ''kali'']" by simp
  ultimately show ?thesis by blast
next
  case False
  let ?st = "resolve_stack (if prefix ''/'' p then [] else rev (segments_of wd)) (segments_of p)"
  have "clean_parts ?st"
    by (rule resolve_stack_clean_parts) (use segs_clean_parts in \<open>auto simp: segments_of_split\<close>)
  then have "clean_parts (rev ?st)" by simp
  moreover have "resolvePath wd p = serialize (rev ?st)"
    using False by (simp add: resolvePath_eq_spec resolve_spec_def)
  ultimately show ?thesis by blast
qed

lemma segs_leading_sep:
  "filter_truthy (split_char c (c # t)) = filter_truthy (split_char c t)"
  by (simp add: filter_truthy_def)

lemma segs_concat:
  "\<forall>x \<in> set xs. x \<noteq> [] \<and> c \<notin> set x \<Longrightarrow>
   filter_truthy (split_char c (concat (map ((#) c) xs))) = xs"
proof (induction xs)
  case Nil
  show ?case by (simp add: filter_truthy_def)
next
  case (Cons x xs)
  have x: "x \<noteq> []" "c \<notin> set x" using Cons.prems by auto
  have IH: "filter_truthy (split_char c (concat (map ((#) c) xs))) = xs"
    using Cons by auto
  show ?case
  proof (cases xs)
    case Nil
    then show ?thesis using x by (simp add: filter_truthy_def split_char_no_sep)
  next
    case (Cons y ys)
    obtain t where t: "concat (map ((#) c) xs) = c # t" using Cons by auto
    have "filter_truthy (split_char c (concat (map ((#) c) (x # xs))))
            = filter_truthy (split_char c (x @ c # t))"
      using t by (simp add: filter_truthy_def)
    also have "\<dots> = x # filter_truthy (split_char c t)"
      using x by (simp add: split_char_append_sep filter_truthy_def)
    also have "filter_truthy (split_char c t) = xs"
      using IH t by (simp add: filter_truthy_def)
    finally show ?thesis .
  qed
qed

lemma segs_serialize:
  "clean_parts parts \<Longrightarrow> filter_truthy (split_char CHR ''/'' (serialize parts)) = parts"
  using segs_concat [of parts "CHR ''/''"]
  by (cases "parts = []") (simp_all add: serialize_def filter_truthy_def)

lemma getNode_serialize: "clean_parts parts \<Longrightarrow> getNode t (serialize parts) = walk (Own t) parts"
  by (simp add: getNode_def segs_serialize)

lemma lastIndexOf_absent: "c \<notin> set b \<Longrightarrow> lastIndexOf c b = - 1"
  by (induction b) (auto simp: Let_def)

lemma lastIndexOf_last: "c \<notin> set b \<Longrightarrow> lastIndexOf c (a @ c # b) = int (length a)"
  by (induction a) (auto simp: Let_def lastIndexOf_absent)

lemma serialize_snoc:
  "serialize (xs @ [x]) = concat (map ((#) CHR ''/'') xs) @ CHR ''/'' # x"
  by (simp add: serialize_def)

lemma concat_slash_empty: "concat (map ((#) c) xs) = [] \<longleftrightarrow> xs = []"
  by (cases xs) auto

lemma parent_cut:
  assumes "CHR ''/'' \<notin> set x"
  shows "substring (serialize (xs @ [x])) 0 (lastIndexOf CHR ''/'' (serialize (xs @ [x])))
           = concat (map ((#) CHR ''/'') xs)"
    and "substring_from (serialize (xs @ [x])) (lastIndexOf CHR ''/'' (serialize (xs @ [x])) + 1) = x"
proof -
  let ?pre = "concat (map ((#) CHR ''/'') xs)"
  have idx: "lastIndexOf CHR ''/'' (serialize (xs @ [x])) = int (length ?pre)"
    unfolding serialize_snoc by (rule lastIndexOf_last [OF assms(1)])
  show "substring (serialize (xs @ [x])) 0 (lastIndexOf CHR ''/'' (serialize (xs @ [x]))) = ?pre"
    unfolding idx by (simp add: substring_def clamp_index_def serialize_snoc)
  have "nat (int (length ?pre) + 1) = Suc (length ?pre)" by simp
  then show "substring_from (serialize (xs @ [x])) (lastIndexOf CHR ''/'' (serialize (xs @ [x])) + 1) = x"
    unfolding idx by (simp add: substring_from_def clamp_index_def serialize_snoc)
qed

lemma parent_path: "(if concat (map ((#) CHR ''/'') xs) = [] then ''/'' else concat (map ((#) CHR ''/'') xs))
    = serialize xs"
  by (simp add: serialize_def concat_slash_empty)

lemma walk_append:
  "walk t (ps @ qs) = (case walk t ps of None \<Rightarrow> None | Some n \<Rightarrow> walk n qs)"
  by (induction t ps rule: walk.induct) (auto split: option.splits)

lemma walk_Inherited: "walk Inherited ps = Some (Own n) \<longleftrightarrow> False"
  by (cases ps) simp_all

lemma walk_modify_at:
  "walk (Own t) ps = Some (Own n) \<Longrightarrow>
   walk (Own (modify_at f t ps)) (ps @ qs) = walk (Own (f n)) qs"
proof (induction f t ps rule: modify_at.induct)
  case (1 f n')
  then show ?case by simp
next
  case (2 f c p ps)
  then show ?case by simp
next
  case (3 f ch p ps)
  show ?case
  proof (cases "map_of ch p")
    case None
    then show ?thesis using 3(2) by (simp add: child_def walk_Inherited split: if_splits)
  next
    case (Some m)
    then have "walk (Own m) ps = Some (Own n)" using 3(2) by (simp add: child_def)
    then have "walk (Own (modify_at f m ps)) (ps @ qs) = walk (Own (f n)) qs"
      by (rule 3(1) [OF Some])
    then show ?thesis using Some by (simp add: child_def update_conv')
  qed
qed

lemma map_of_insert_new:
  "map_of ch name = None \<Longrightarrow> map_of (insert_new name new ch) = (map_of ch)(name \<mapsto> new)"
proof (induction ch)
  case Nil
  show ?case by simp
next
  case (Cons e ch)
  obtain k v where e: "e = (k, v)" by (cases e)
  have ne: "k \<noteq> name" and rest: "map_of ch name = None"
    using Cons.prems e by (auto split: if_splits)
  show ?case using Cons.IH [OF rest] ne by (auto simp: e fun_eq_iff)
qed

lemma map_of_set_entry: "map_of (set_entry name new ch) = (map_of ch)(name \<mapsto> new)"
  by (cases "map_of ch name") (simp_all add: set_entry_def map_of_insert_new update_conv')

lemma child_set_entry: "child (set_entry name new ch) name = Some (Own new)"
  by (simp add: child_def map_of_set_entry)

lemma child_None: "child ch name = None \<longleftrightarrow> map_of ch name = None \<and> name \<notin> set inherited_names"
  by (simp add: child_def split: option.splits)


lemma dispatch_mkdir: "dispatch ''mkdir'' args s = mkdir_cmd args s"
  by (simp add: dispatch_def toLowerCase_def to_lower_def)

lemma mkdir_exists:
  "first_arg args = Some t \<Longrightarrow> getNode (fileSystem s) (resolvePath (cwd s) t) \<noteq> None \<Longrightarrow>
   mkdir_cmd args s = (Some (mkdir_msg t ''File exists''), s)"
  by (auto simp: mkdir_cmd_def)

lemma mkdir_cmd_unfold:
  assumes "first_arg args = Some t"
    and "getNode (fileSystem s) (resolvePath (cwd s) t) = None"
    and "parentPath =
           (if substring (resolvePath (cwd s) t) 0 (lastIndexOf CHR ''/'' (resolvePath (cwd s) t)) = []
            then ''/''
            else substring (resolvePath (cwd s) t) 0 (lastIndexOf CHR ''/'' (resolvePath (cwd s) t)))"
    and "newDirName =
           substring_from (resolvePath (cwd s) t) (lastIndexOf CHR ''/'' (resolvePath (cwd s) t) + 1)"
  shows "mkdir_cmd args s =
     (if newDirName = [] then (Some (mkdir_msg t ''Invalid argument''), s)
      else case getNode (fileSystem s) parentPath of
             Some (Own (Directory ch)) \<Rightarrow>
               (Some [],
                s\<lparr>fileSystem :=
                    modify_node (set_child newDirName (Directory [])) (fileSystem s) parentPath\<rparr>)
           | _ \<Rightarrow> (Some (mkdir_msg t ''No such file or directory''), s))"
  unfolding assms(3) assms(4) using assms(1) assms(2) by (simp add: mkdir_cmd_def Let_def)

lemma mkdir_fresh:
  assumes arg: "first_arg args = Some t"
    and full: "resolvePath (cwd s) t = serialize parts" and clean_parts: "clean_parts parts"
    and none: "getNode (fileSystem s) (resolvePath (cwd s) t) = None"
  shows "parts \<noteq> []"
    and "mkdir_cmd args s =
      (case walk (Own (fileSystem s)) (butlast parts) of
         Some (Own (Directory ch)) \<Rightarrow>
           (Some [], s\<lparr>fileSystem :=
              modify_at (set_child (last parts) (Directory [])) (fileSystem s) (butlast parts)\<rparr>)
       | _ \<Rightarrow> (Some (mkdir_msg t ''No such file or directory''), s))"
proof -
  have "walk (Own (fileSystem s)) parts = None"
    using none full clean_parts by (simp add: getNode_serialize)
  then show ne: "parts \<noteq> []" by auto
  define xs where "xs = butlast parts"
  define x where "x = last parts"
  have parts: "parts = xs @ [x]" using ne by (simp add: xs_def x_def)
  have x: "x \<noteq> []" "CHR ''/'' \<notin> set x" and gxs: "clean_parts xs"
    using clean_parts parts by auto
  have full': "resolvePath (cwd s) t = serialize (xs @ [x])" using full parts by simp
  have par: "getNode (fileSystem s) (serialize xs) = walk (Own (fileSystem s)) xs"
    using gxs by (rule getNode_serialize)
  have mod: "modify_node f (fileSystem s) (serialize xs) = modify_at f (fileSystem s) xs" for f
    using gxs by (simp add: modify_node_def segs_serialize)
  have p: "serialize xs =
           (if substring (resolvePath (cwd s) t) 0 (lastIndexOf CHR ''/'' (resolvePath (cwd s) t)) = []
            then ''/''
            else substring (resolvePath (cwd s) t) 0 (lastIndexOf CHR ''/'' (resolvePath (cwd s) t)))"
    unfolding full' parent_cut(1) [OF x(2)] by (rule parent_path [symmetric])
  have n: "x = substring_from (resolvePath (cwd s) t) (lastIndexOf CHR ''/'' (resolvePath (cwd s) t) + 1)"
    unfolding full' parent_cut(2) [OF x(2)] ..
  show "mkdir_cmd args s =
      (case walk (Own (fileSystem s)) (butlast parts) of
         Some (Own (Directory ch)) \<Rightarrow>
           (Some [], s\<lparr>fileSystem :=
              modify_at (set_child (last parts) (Directory [])) (fileSystem s) (butlast parts)\<rparr>)
       | _ \<Rightarrow> (Some (mkdir_msg t ''No such file or directory''), s))"
    unfolding xs_def [symmetric] x_def [symmetric] mkdir_cmd_unfold [OF arg none p n]
    using x(1) by (simp add: par mod split: option.splits found.splits node.splits)
qed


lemma mkdir_msg_inject: "mkdir_msg t a = mkdir_msg t b \<longleftrightarrow> a = b"
  by (simp add: mkdir_msg_def)

lemma mkdir_msg_not_Nil: "mkdir_msg t a \<noteq> []"
  by (simp add: mkdir_msg_def)

text \<open>The slip that the amended statement of C3 leaves out: a final segment that is a name
  every object inherits is found by the lookup, so \<open>mkdir constructor\<close> answers that the
  file exists and creates nothing.\<close>

lemma mkdir_inherited_name:
  "getNode (fileSystem example_session) (resolvePath (cwd example_session) ''constructor'')
     = Some Inherited
   \<and> dispatch ''mkdir'' [''constructor''] example_session
       = (Some (mkdir_msg ''constructor'' ''File exists''), example_session)"
  by code_simp

text \<open>
  C3 (as amended).  For a non-empty target argument, with \<open>full\<close> the resolved path, \<open>parent\<close>
  the path of all its segments but the last and \<open>name\<close> its last segment: when a node
  occupies \<open>full\<close>, \<open>mkdir\<close> fails with the already-exists message, and this is also what
  happens when \<open>full\<close> has no segment at all, since then it is the root; when the lookup of
  \<open>full\<close> finds nothing and \<open>parent\<close> is not an existing directory, it fails with the
  missing-parent message; when the lookup of \<open>full\<close> finds nothing and \<open>parent\<close> is an
  existing directory, it succeeds with empty output, after which \<open>full\<close> is an empty
  directory and the entries of \<open>parent\<close> are the former ones and \<open>name\<close>.  Under an existing
  directory the lookup finds nothing exactly when \<open>name\<close> is neither an entry of that
  directory nor one of the names that every object inherits.  Each message quotes the
  argument as typed, and the invalid-name message is never the answer.
\<close>

theorem mkdir_builtin:
  fixes args :: "string list" and s :: session and t :: string
  assumes arg: "first_arg args = Some t"
  defines "full \<equiv> resolvePath (cwd s) t"
  defines "parent \<equiv> serialize (butlast (segments_of full))"
  defines "name \<equiv> last (segments_of full)"
  defines "tree' \<equiv> modify_node (set_child name (Directory [])) (fileSystem s) parent"
  shows "(is_node (getNode (fileSystem s) full) \<longrightarrow>
            dispatch ''mkdir'' args s = (Some (mkdir_msg t ''File exists''), s))
       \<and> (segments_of full = [] \<longrightarrow> is_node (getNode (fileSystem s) full))
       \<and> (getNode (fileSystem s) full = None \<and> \<not> is_directory (getNode (fileSystem s) parent) \<longrightarrow>
            dispatch ''mkdir'' args s = (Some (mkdir_msg t ''No such file or directory''), s))
       \<and> (getNode (fileSystem s) full = None \<and> is_directory (getNode (fileSystem s) parent) \<longrightarrow>
            dispatch ''mkdir'' args s = (Some [], s\<lparr>fileSystem := tree'\<rparr>)
            \<and> getNode tree' full = Some (Own (Directory []))
            \<and> (\<forall>ch. getNode (fileSystem s) parent = Some (Own (Directory ch)) \<longrightarrow>
                  (\<exists>ch'. getNode tree' parent = Some (Own (Directory ch'))
                         \<and> map_of ch' = (map_of ch)(name \<mapsto> Directory []))))
       \<and> (\<forall>ch. segments_of full \<noteq> [] \<and> getNode (fileSystem s) parent = Some (Own (Directory ch)) \<longrightarrow>
            (getNode (fileSystem s) full = None
               \<longleftrightarrow> map_of ch name = None \<and> name \<notin> set inherited_names))
       \<and> fst (dispatch ''mkdir'' args s) \<noteq> Some (mkdir_msg t ''Invalid argument'')"
proof -
  obtain parts where clean_parts: "clean_parts parts" and full: "full = serialize parts"
    using resolvePath_parts [of "cwd s" t] unfolding full_def by blast
  have segs: "segments_of full = parts"
    using clean_parts by (simp add: full segments_of_split segs_serialize)
  have gb: "clean_parts (butlast parts)" using clean_parts by (auto dest: in_set_butlastD)
  have node: "getNode tr full = walk (Own tr) parts" for tr
    unfolding full using clean_parts by (rule getNode_serialize)
  have par: "getNode tr parent = walk (Own tr) (butlast parts)" for tr
    unfolding parent_def segs using gb by (rule getNode_serialize)
  have mod: "modify_node f (fileSystem s) parent = modify_at f (fileSystem s) (butlast parts)" for f
    unfolding parent_def segs using gb by (simp add: modify_node_def segs_serialize)
  have c1: "is_node (getNode (fileSystem s) full) \<longrightarrow>
            dispatch ''mkdir'' args s = (Some (mkdir_msg t ''File exists''), s)"
  proof
    assume "is_node (getNode (fileSystem s) full)"
    then have "getNode (fileSystem s) full \<noteq> None"
      by (cases "getNode (fileSystem s) full") simp_all
    then show "dispatch ''mkdir'' args s = (Some (mkdir_msg t ''File exists''), s)"
      unfolding dispatch_mkdir full_def by (rule mkdir_exists [OF arg])
  qed
  have c2: "segments_of full = [] \<longrightarrow> is_node (getNode (fileSystem s) full)"
    unfolding segs node by auto
  have fresh: "mkdir_cmd args s =
      (case walk (Own (fileSystem s)) (butlast parts) of
         Some (Own (Directory ch)) \<Rightarrow>
           (Some [], s\<lparr>fileSystem :=
              modify_at (set_child (last parts) (Directory [])) (fileSystem s) (butlast parts)\<rparr>)
       | _ \<Rightarrow> (Some (mkdir_msg t ''No such file or directory''), s))"
    and ne: "parts \<noteq> []"
    if "getNode (fileSystem s) full = None"
    using mkdir_fresh [OF arg full [unfolded full_def] clean_parts that [unfolded full_def]] by blast+
  have c3: "getNode (fileSystem s) full = None \<and> \<not> is_directory (getNode (fileSystem s) parent) \<longrightarrow>
            dispatch ''mkdir'' args s = (Some (mkdir_msg t ''No such file or directory''), s)"
  proof (intro impI, elim conjE)
    assume n: "getNode (fileSystem s) full = None"
      and d: "\<not> is_directory (getNode (fileSystem s) parent)"
    show "dispatch ''mkdir'' args s = (Some (mkdir_msg t ''No such file or directory''), s)"
      using d unfolding dispatch_mkdir fresh [OF n] par
      by (cases "walk (Own (fileSystem s)) (butlast parts)" rule: is_directory.cases) simp_all
  qed
  have c4: "getNode (fileSystem s) full = None \<and> is_directory (getNode (fileSystem s) parent) \<longrightarrow>
            dispatch ''mkdir'' args s = (Some [], s\<lparr>fileSystem := tree'\<rparr>)
            \<and> getNode tree' full = Some (Own (Directory []))
            \<and> (\<forall>ch. getNode (fileSystem s) parent = Some (Own (Directory ch)) \<longrightarrow>
                  (\<exists>ch'. getNode tree' parent = Some (Own (Directory ch'))
                         \<and> map_of ch' = (map_of ch)(name \<mapsto> Directory [])))"
  proof (intro impI, elim conjE)
    assume n: "getNode (fileSystem s) full = None"
      and d: "is_directory (getNode (fileSystem s) parent)"
    obtain ch where ch: "walk (Own (fileSystem s)) (butlast parts) = Some (Own (Directory ch))"
      using d unfolding par
      by (cases "walk (Own (fileSystem s)) (butlast parts)" rule: is_directory.cases) simp_all
    have split: "parts = butlast parts @ [last parts]" using ne [OF n] by simp
    let ?new = "modify_at (set_child (last parts) (Directory [])) (fileSystem s) (butlast parts)"
    have new: "tree' = ?new" unfolding tree'_def mod name_def segs ..
    have upd: "set_child (last parts) (Directory []) (Directory ch)
                 = Directory (set_entry (last parts) (Directory []) ch)"
      by (simp add: set_child_def)
    have at_parent: "walk (Own ?new) (butlast parts)
                       = Some (Own (Directory (set_entry (last parts) (Directory []) ch)))"
      using walk_modify_at [OF ch, of "set_child (last parts) (Directory [])" "[]"] upd by simp
    have "walk (Own ?new) (butlast parts @ [last parts]) = Some (Own (Directory []))"
      using walk_modify_at [OF ch, of "set_child (last parts) (Directory [])" "[last parts]"] upd
      by (simp add: child_set_entry)
    then have at_full: "walk (Own ?new) parts = Some (Own (Directory []))" using split by simp
    have run: "dispatch ''mkdir'' args s = (Some [], s\<lparr>fileSystem := tree'\<rparr>)"
      unfolding dispatch_mkdir fresh [OF n] new using ch by simp
    have entries: "\<forall>ch0. getNode (fileSystem s) parent = Some (Own (Directory ch0)) \<longrightarrow>
                  (\<exists>ch'. getNode tree' parent = Some (Own (Directory ch'))
                         \<and> map_of ch' = (map_of ch0)(name \<mapsto> Directory []))"
      unfolding par new name_def segs using ch at_parent by (simp add: map_of_set_entry)
    show "dispatch ''mkdir'' args s = (Some [], s\<lparr>fileSystem := tree'\<rparr>)
            \<and> getNode tree' full = Some (Own (Directory []))
            \<and> (\<forall>ch. getNode (fileSystem s) parent = Some (Own (Directory ch)) \<longrightarrow>
                  (\<exists>ch'. getNode tree' parent = Some (Own (Directory ch'))
                         \<and> map_of ch' = (map_of ch)(name \<mapsto> Directory [])))"
      using run entries at_full unfolding node new by blast
  qed
  have c5: "\<forall>ch. segments_of full \<noteq> [] \<and> getNode (fileSystem s) parent = Some (Own (Directory ch)) \<longrightarrow>
            (getNode (fileSystem s) full = None
               \<longleftrightarrow> map_of ch name = None \<and> name \<notin> set inherited_names)"
  proof (intro allI impI, elim conjE)
    fix ch
    assume ne: "segments_of full \<noteq> []"
      and d: "getNode (fileSystem s) parent = Some (Own (Directory ch))"
    have split: "parts = butlast parts @ [last parts]" using ne segs by simp
    have "walk (Own (fileSystem s)) (butlast parts @ [last parts]) = child ch (last parts)"
      using d unfolding par by (simp add: walk_append split: option.splits)
    then have "getNode (fileSystem s) full = child ch name"
      unfolding node name_def segs using split by simp
    then show "getNode (fileSystem s) full = None
               \<longleftrightarrow> map_of ch name = None \<and> name \<notin> set inherited_names"
      by (simp add: child_None)
  qed
  have c6: "fst (dispatch ''mkdir'' args s) \<noteq> Some (mkdir_msg t ''Invalid argument'')"
  proof (cases "getNode (fileSystem s) full")
    case None
    show ?thesis unfolding dispatch_mkdir fresh [OF None]
      by (simp add: mkdir_msg_inject mkdir_msg_not_Nil [symmetric]
            split: option.splits found.splits node.splits)
  next
    case (Some n)
    then have "mkdir_cmd args s = (Some (mkdir_msg t ''File exists''), s)"
      using mkdir_exists [OF arg, of s] unfolding full_def by simp
    then show ?thesis unfolding dispatch_mkdir by (simp add: mkdir_msg_inject)
  qed
  from c1 c2 c3 c4 c5 c6 show ?thesis by blast
qed


theorem mkdir_builtin_witness:
  "first_arg [''documents/new''] = Some ''documents/new''
   \<and> getNode (fileSystem example_session)
         (resolvePath (cwd example_session) ''documents/new'') = None
   \<and> is_directory (getNode (fileSystem example_session) ''/home/kali/documents'')
   \<and> dispatch ''mkdir'' [''documents/new''] example_session
       = (Some [], example_session\<lparr>fileSystem :=
            modify_node (set_child ''new'' (Directory [])) example_tree ''/home/kali/documents''\<rparr>)
   \<and> getNode (modify_node (set_child ''new'' (Directory [])) example_tree ''/home/kali/documents'')
         ''/home/kali/documents/new'' = Some (Own (Directory []))
   \<and> getNode (modify_node (set_child ''new'' (Directory [])) example_tree ''/home/kali/documents'')
         ''/home/kali/documents''
       = Some (Own (Directory [(''project_plan.txt'', File ''Phase 1: Initial setup.''),
                                (''new'', Directory [])]))
   \<and> getNode (fileSystem example_session) (resolvePath (cwd example_session) ''a/b'') = None
   \<and> \<not> is_directory (getNode (fileSystem example_session) ''/home/kali/a'')
   \<and> dispatch ''mkdir'' [''a/b''] example_session
       = (Some (mkdir_msg ''a/b'' ''No such file or directory''), example_session)
   \<and> is_node (getNode (fileSystem example_session)
         (resolvePath (cwd example_session) ''documents''))
   \<and> dispatch ''mkdir'' [''documents''] example_session
       = (Some (mkdir_msg ''documents'' ''File exists''), example_session)"
proof -
  have arg: "first_arg [''documents/new''] = Some ''documents/new''"
    by (simp add: first_arg_def)
  have arg': "first_arg [''a/b''] = Some ''a/b''"
    by (simp add: first_arg_def)
  have arg'': "first_arg [''documents''] = Some ''documents''"
    by (simp add: first_arg_def)
  have full: "resolvePath (cwd example_session) ''documents/new'' = ''/home/kali/documents/new''"
    by code_simp
  have parent: "serialize (butlast (segments_of ''/home/kali/documents/new'')) = ''/home/kali/documents''"
    and name: "last (segments_of ''/home/kali/documents/new'') = ''new''"
    by code_simp+
  have full': "resolvePath (cwd example_session) ''a/b'' = ''/home/kali/a/b''"
    by code_simp
  have parent': "serialize (butlast (segments_of ''/home/kali/a/b'')) = ''/home/kali/a''"
    by code_simp
  have full'': "resolvePath (cwd example_session) ''documents'' = ''/home/kali/documents''"
    by code_simp
  have none: "getNode (fileSystem example_session) ''/home/kali/documents/new'' = None"
    and dir: "is_directory (getNode (fileSystem example_session) ''/home/kali/documents'')"
    and none': "getNode (fileSystem example_session) ''/home/kali/a/b'' = None"
    and nodir: "\<not> is_directory (getNode (fileSystem example_session) ''/home/kali/a'')"
    and there: "is_node (getNode (fileSystem example_session) ''/home/kali/documents'')"
    and fs: "fileSystem example_session = example_tree"
    by code_simp+
  have after: "getNode (modify_node (set_child ''new'' (Directory [])) example_tree ''/home/kali/documents'')
         ''/home/kali/documents''
       = Some (Own (Directory [(''project_plan.txt'', File ''Phase 1: Initial setup.''),
                                (''new'', Directory [])]))"
    by code_simp
  have ok: "dispatch ''mkdir'' [''documents/new''] example_session
       = (Some [], example_session\<lparr>fileSystem :=
            modify_node (set_child ''new'' (Directory [])) example_tree ''/home/kali/documents''\<rparr>)
     \<and> getNode (modify_node (set_child ''new'' (Directory [])) example_tree ''/home/kali/documents'')
         ''/home/kali/documents/new'' = Some (Own (Directory []))"
    using mkdir_builtin [OF arg, of example_session] none dir
    unfolding full parent name fs by blast
  have missing: "dispatch ''mkdir'' [''a/b''] example_session
       = (Some (mkdir_msg ''a/b'' ''No such file or directory''), example_session)"
    using mkdir_builtin [OF arg', of example_session] none' nodir
    unfolding full' parent' by blast
  have exists: "dispatch ''mkdir'' [''documents''] example_session
       = (Some (mkdir_msg ''documents'' ''File exists''), example_session)"
    using mkdir_builtin [OF arg'', of example_session] there
    unfolding full'' by blast
  show ?thesis
    using arg none dir ok after none' nodir missing there exists unfolding full full' full'' by blast
qed

text \<open>C3 as stated: a target whose trailing slash resolves to the root has an empty final
  segment, and the answer is the already-exists message, not the invalid-name one.\<close>

theorem mkdir_root_counterexample:
  "resolvePath (cwd example_session) ''../../'' = ''/''
   \<and> substring_from ''/'' (lastIndexOf CHR ''/'' ''/'' + 1) = []
   \<and> dispatch ''mkdir'' [''../../''] example_session
       = (Some (mkdir_msg ''../../'' ''File exists''), example_session)
   \<and> mkdir_msg ''../../'' ''File exists'' \<noteq> mkdir_msg ''../../'' ''Invalid argument''"
  by code_simp

text \<open>A directory whose name is an array index is enumerated before the other names, and so
  \<open>ls\<close> lists it first.\<close>

lemma mkdir_array_index_first:
  "fst (dispatch ''ls'' []
         (snd (dispatch ''mkdir'' [''2''] (example_session\<lparr>cwd := ''/home/kali/documents''\<rparr>))))
     = Some (''2/'' @ newline @ ''project_plan.txt'')"
  by (simp add: dispatch_mkdir dispatch_ls mkdir_cmd_def ls_cmd_def first_arg_def
        example_session_def example_tree_def example_home_def resolvePath_def
        getNode_def modify_node_def filter_truthy_def resolve_step_def child_def
        substring_def substring_from_def clamp_index_def set_child_def set_entry_def
        enumerated_before_def array_index_def digit_of_def inherited_names_def newline_def
        Let_def)


section \<open>The built-in \<open>termux-fix-shebang\<close>\<close>

text \<open>The outcomes that do not rewrite: a path that resolves to nothing, a directory, and a
  file whose content does not begin with \<open>#!\<close>; each leaves the session as it was.\<close>

lemma split_from_first:
  "\<exists>p rest. split_from sep acc s = p # rest \<and> prefix (rev acc) p \<and> prefix p (rev acc @ s)"
proof (induction sep acc s rule: split_from.induct)
  case (1 sep acc)
  show ?case by simp
next
  case (2 sep acc c cs)
  show ?case
  proof (cases "sep \<noteq> [] \<and> prefix sep (c # cs)")
    case True
    then show ?thesis by simp
  next
    case False
    then obtain p rest where "split_from sep (c # acc) cs = p # rest"
      "prefix (rev (c # acc)) p" "prefix p (rev (c # acc) @ cs)"
      using 2(2) by blast
    then show ?thesis using False by (auto dest: append_prefixD)
  qed
qed

lemma first_piece_shebang:
  assumes "split_str shebang_sep c = p # rest"
  shows "prefix ''#!'' p \<longleftrightarrow> prefix ''#!'' c"
proof -
  have sf: "split_from shebang_sep [] c = p # rest"
    using assms by (simp add: split_str_def shebang_sep_def)
  have pc: "prefix p c" using split_from_first [of shebang_sep "[]" c] sf by simp
  show ?thesis
  proof
    assume "prefix ''#!'' p"
    then show "prefix ''#!'' c" using pc by (rule prefix_order.trans)
  next
    assume "prefix ''#!'' c"
    then obtain r where c: "c = CHR ''#'' # CHR ''!'' # r" by (auto elim: prefixE)
    have "split_from shebang_sep [] c = split_from shebang_sep [CHR ''!'', CHR ''#''] r"
      unfolding c by (simp add: shebang_sep_def)
    moreover obtain p' rest' where "split_from shebang_sep [CHR ''!'', CHR ''#''] r = p' # rest'"
      "prefix (rev [CHR ''!'', CHR ''#'']) p'"
      using split_from_first [of shebang_sep "[CHR ''!'', CHR ''#'']" r] by blast
    ultimately show "prefix ''#!'' p" using sf by simp
  qed
qed

lemma split_str_not_Nil: "split_str shebang_sep c \<noteq> []"
  using split_from_first [of shebang_sep "[]" c] by (auto simp: split_str_def shebang_sep_def)

lemma fix_shebang_other_outcomes:
  assumes "first_arg args = Some f"
  shows "(getNode (fileSystem s) (resolvePath (cwd s) f) = None \<longrightarrow>
            fix_shebang_cmd args s = (Some (''termux-fix-shebang: file not found: '' @ f), s))
       \<and> (\<forall>ch. getNode (fileSystem s) (resolvePath (cwd s) f) = Some (Own (Directory ch)) \<longrightarrow>
            fix_shebang_cmd args s = (Some (''termux-fix-shebang: not a file: '' @ f), s))
       \<and> (\<forall>c. getNode (fileSystem s) (resolvePath (cwd s) f) = Some (Own (File c)) \<and> \<not> prefix ''#!'' c \<longrightarrow>
            fix_shebang_cmd args s = (Some (f @ '' does not have a shebang or is empty.''), s))"
proof (intro conjI allI impI)
  assume "getNode (fileSystem s) (resolvePath (cwd s) f) = None"
  then show "fix_shebang_cmd args s = (Some (''termux-fix-shebang: file not found: '' @ f), s)"
    using assms by (simp add: fix_shebang_cmd_def)
next
  fix ch
  assume "getNode (fileSystem s) (resolvePath (cwd s) f) = Some (Own (Directory ch))"
  then show "fix_shebang_cmd args s = (Some (''termux-fix-shebang: not a file: '' @ f), s)"
    using assms by (simp add: fix_shebang_cmd_def)
next
  fix c
  assume a: "getNode (fileSystem s) (resolvePath (cwd s) f) = Some (Own (File c)) \<and> \<not> prefix ''#!'' c"
  obtain p rest where pr: "split_str shebang_sep c = p # rest"
    using split_str_not_Nil [of c] by (cases "split_str shebang_sep c") auto
  have "\<not> prefix ''#!'' p" using first_piece_shebang [OF pr] a by simp
  then show "fix_shebang_cmd args s = (Some (f @ '' does not have a shebang or is empty.''), s)"
    using assms a pr by (simp add: fix_shebang_cmd_def Let_def)
qed


text \<open>The outcome that rewrites, for a content in which backslash-\<open>n\<close> does not occur: the
  whole content is taken for the first line and replaced.\<close>

lemma split_from_absent:
  "\<not> includes_str s sep \<Longrightarrow> split_from sep acc s = [rev acc @ s]"
  by (induction sep acc s rule: split_from.induct) auto

lemma fix_shebang_whole_content:
  assumes "first_arg args = Some f"
    and "getNode (fileSystem s) (resolvePath (cwd s) f) = Some (Own (File c))"
    and "prefix ''#!'' c" and "\<not> includes_str c shebang_sep"
  shows "fix_shebang_cmd args s =
     (Some (''shebang of '' @ f @ '' has been rewritten from '' @ [sq] @ c @ [sq]
             @ '' to '' @ [sq] @ termux_shebang @ [sq]),
      s\<lparr>fileSystem := modify_node (set_content termux_shebang) (fileSystem s)
                         (resolvePath (cwd s) f)\<rparr>)"
proof -
  have "split_str shebang_sep c = [c]"
    using split_from_absent [OF assms(4), of "[]"] by (simp add: split_str_def shebang_sep_def)
  then show ?thesis using assms(1-3) by (simp add: fix_shebang_cmd_def Let_def)
qed


text \<open>
  C1.  The claim is that the first line alone is replaced and every later line is kept.
  The source cuts the content at the two characters backslash and \<open>n\<close>, not at line
  breaks, so for a file with ordinary line breaks the "first line" is the whole content: on
  \<open>chroot.py\<close>, whose content here is \<open>#!/bin/python3\<close>, an empty line and \<open># Usage:\<close>,
  the command reports all three lines as the old shebang and leaves the interpreter line
  as the entire content.
\<close>

theorem fix_shebang_drops_lines:
  "getNode (fileSystem example_session) ''/home/kali/chroot.py''
     = Some (Own (File (''#!/bin/python3'' @ newline @ newline @ ''# Usage:'')))
   \<and> fst (handleFileSystemCommand ''termux-fix-shebang chroot.py'' example_session)
     = Some (''shebang of chroot.py has been rewritten from '' @ [sq]
             @ ''#!/bin/python3'' @ newline @ newline @ ''# Usage:'' @ [sq]
             @ '' to '' @ [sq] @ ''#!/data/data/com.termux/files/usr/bin/python3'' @ [sq])
   \<and> getNode (fileSystem (snd (handleFileSystemCommand ''termux-fix-shebang chroot.py''
                                  example_session)))
         ''/home/kali/chroot.py''
     = Some (Own (File ''#!/data/data/com.termux/files/usr/bin/python3''))"
  by code_simp


section \<open>\<open>git clone\<close>\<close>

lemma split_char_append:
  "split_char c (a @ c # b) = split_char c a @ split_char c b"
proof (induction a)
  case Nil
  show ?case by simp
next
  case (Cons x a)
  obtain r rs where r: "split_char c a = r # rs"
    using split_char_not_Nil [of c a] by (cases "split_char c a") auto
  show ?case using Cons r by simp
qed

lemma segs_append:
  "filter_truthy (split_char c (a @ c # b))
     = filter_truthy (split_char c a) @ filter_truthy (split_char c b)"
  by (simp add: split_char_append filter_truthy_def)

lemma set_output_last:
  "set_output (Suc (length h)) txt (h @ [c, Output_item x]) = h @ [c, Output_item txt]"
  by (simp add: set_output_def nth_append list_update_append)

lemma command_texts_append:
  "command_texts (xs @ ys) = command_texts xs @ command_texts ys"
  by (induction xs rule: command_texts.induct) simp_all

lemma segs_child:
  "CHR ''/'' \<notin> set name \<Longrightarrow> name \<noteq> [] \<Longrightarrow>
   filter_truthy (split_char CHR ''/'' (wd @ ''/'' @ name))
     = filter_truthy (split_char CHR ''/'' wd) @ [name]"
  using segs_append [of "CHR ''/''" wd name]
  by (simp add: split_char_no_sep filter_truthy_def)

lemma stream_fold:
  assumes "history s2 = h @ [c, Output_item x]"
    and "commandHistory s2 = command_texts (history s2)"
  shows "foldl (stream_step (length h + 1)) (x, s2) ls =
    (foldl (\<lambda>acc l. acc @ newline @ l) x ls,
     s2\<lparr>history := h @ [c, Output_item (foldl (\<lambda>acc l. acc @ newline @ l) x ls)],
        commandHistory :=
          command_texts (h @ [c, Output_item (foldl (\<lambda>acc l. acc @ newline @ l) x ls)])\<rparr>)"
  using assms
proof (induction ls arbitrary: x s2)
  case Nil
  then show ?case by simp
next
  case (Cons l ls)
  let ?x = "x @ newline @ l"
  let ?s = "s2\<lparr>history := h @ [c, Output_item ?x],
               commandHistory := command_texts (h @ [c, Output_item ?x])\<rparr>"
  have step: "stream_step (length h + 1) (x, s2) l = (?x, ?s)"
    using Cons.prems(1) by (simp add: stream_step_def setHistory_def set_output_last Let_def)
  have "foldl (stream_step (length h + 1)) (x, s2) (l # ls)
          = foldl (stream_step (length h + 1)) (?x, ?s) ls"
    using step by simp
  also have "\<dots> = (foldl (\<lambda>acc l. acc @ newline @ l) ?x ls,
     ?s\<lparr>history := h @ [c, Output_item (foldl (\<lambda>acc l. acc @ newline @ l) ?x ls)],
        commandHistory :=
          command_texts (h @ [c, Output_item (foldl (\<lambda>acc l. acc @ newline @ l) ?x ls)])\<rparr>)"
    by (rule Cons.IH) simp_all
  finally show ?case by simp
qed

lemma git_clone_missing:
  "first_arg (drop 2 (split_ws line)) = None \<Longrightarrow>
   git_clone line s0 s1 =
     (push_output ''fatal: You must specify a repository to clone.'' s1)\<lparr>isLoading := False\<rparr>"
  by (simp add: git_clone_def)

lemma git_clone_exists:
  "first_arg (drop 2 (split_ws line)) = Some url \<Longrightarrow>
   getNode (fileSystem s1) (cwd s0 @ ''/'' @ repo_name url) \<noteq> None \<Longrightarrow>
   git_clone line s0 s1 =
     (push_output (''fatal: destination path '' @ [sq] @ repo_name url @ [sq]
        @ '' already exists and is not an empty directory.'') s1)\<lparr>isLoading := False\<rparr>"
  by (auto simp: git_clone_def Let_def)

lemma git_clone_unfold:
  assumes "first_arg (drop 2 (split_ws line)) = Some url"
    and "getNode (fileSystem s1) (cwd s0 @ ''/'' @ repo_name url) = None"
    and "init = ''Cloning into '' @ [sq] @ repo_name url @ [sq] @ ''...''"
    and "idx = length (history s0) + 1"
  shows "git_clone line s0 s1 =
     (snd (foldl (stream_step idx) (init, push_output init s1) progressLines))
       \<lparr>fileSystem := snd (createClonedDirectory (cwd s0) (repo_name url)
          (fileSystem (snd (foldl (stream_step idx) (init, push_output init s1) progressLines)))),
        isLoading := False\<rparr>"
  unfolding assms(3) assms(4) using assms(1) assms(2) by (simp add: git_clone_def Let_def)

lemma git_clone_fresh:
  assumes url: "first_arg (drop 2 (split_ws line)) = Some url"
    and none: "getNode (fileSystem s1) (cwd s0 @ ''/'' @ repo_name url) = None"
    and s1: "s1 = (setHistory (\<lambda>prev. prev @ [Command_item line]) s0)\<lparr>isLoading := True\<rparr>"
  defines "out \<equiv> foldl (\<lambda>acc l. acc @ newline @ l)
                    (''Cloning into '' @ [sq] @ repo_name url @ [sq] @ ''...'') progressLines"
  shows "git_clone line s0 s1 =
     s0\<lparr>history := history s0 @ [Command_item line, Output_item out],
        commandHistory := command_texts (history s0 @ [Command_item line, Output_item out]),
        isLoading := False,
        fileSystem := snd (createClonedDirectory (cwd s0) (repo_name url) (fileSystem s0))\<rparr>"
proof -
  define init where "init = ''Cloning into '' @ [sq] @ repo_name url @ [sq] @ ''...''"
  define idx where "idx = length (history s0) + 1"
  let ?s2 = "push_output init s1"
  have out: "out = foldl (\<lambda>acc l. acc @ newline @ l) init progressLines"
    by (simp add: out_def init_def)
  have h2: "history ?s2 = history s0 @ [Command_item line, Output_item init]"
    by (simp add: push_output_def setHistory_def s1 Let_def)
  have c2: "commandHistory ?s2 = command_texts (history ?s2)"
    by (simp add: push_output_def setHistory_def Let_def)
  have fold: "snd (foldl (stream_step idx) (init, ?s2) progressLines)
     = ?s2\<lparr>history := history s0 @ [Command_item line, Output_item out],
          commandHistory := command_texts (history s0 @ [Command_item line, Output_item out])\<rparr>"
    unfolding idx_def by (subst stream_fold [OF h2 c2]) (simp add: out)
  show ?thesis
    unfolding git_clone_unfold [OF url none init_def idx_def] fold
    by (simp add: push_output_def setHistory_def s1 Let_def)
qed


lemma exec_git_clone:
  assumes "prefix ''git clone'' (trim c)"
  shows "executeCommand rnd c s =
     Finished (git_clone (trim c) s
       ((setHistory (\<lambda>prev. prev @ [Command_item (trim c)]) s)\<lparr>isLoading := True\<rparr>))"
proof -
  obtain r where r: "trim c = ''git clone'' @ r" using assms by (auto elim: prefixE)
  have "toLowerCase (trim c) \<noteq> ''clear''"
    unfolding r by (simp add: toLowerCase_def to_lower_def)
  moreover have "trim c \<noteq> []" unfolding r by simp
  ultimately show ?thesis using assms by (simp add: executeCommand_def Let_def)
qed

lemma cloned_ok:
  "getNode t wd = Some (Own (Directory ch)) \<Longrightarrow> child ch name = None \<Longrightarrow>
   createClonedDirectory wd name t = (True, modify_node (set_child name (cloned_tree name)) t wd)"
  by (simp add: createClonedDirectory_def)

lemma getNode_new_child:
  assumes "getNode t wd = Some (Own (Directory ch))" "CHR ''/'' \<notin> set name" "name \<noteq> []"
  shows "getNode (modify_node (set_child name new) t wd) (wd @ ''/'' @ name) = Some (Own new)"
proof -
  let ?ps = "filter_truthy (split_char CHR ''/'' wd)"
  have w: "walk (Own t) ?ps = Some (Own (Directory ch))" using assms(1) by (simp add: getNode_def)
  have "walk (Own (modify_at (set_child name new) t ?ps)) (?ps @ [name])
          = walk (Own (set_child name new (Directory ch))) [name]"
    by (rule walk_modify_at [OF w])
  also have "\<dots> = Some (Own new)" by (simp add: set_child_def child_set_entry)
  finally show ?thesis
    unfolding getNode_def modify_node_def segs_child [OF assms(2,3)] .
qed

lemma getNode_absent_child:
  assumes "getNode t wd = Some (Own (Directory ch))" "CHR ''/'' \<notin> set name" "name \<noteq> []"
  shows "getNode t (wd @ ''/'' @ name) = child ch name"
  using assms(1) unfolding getNode_def segs_child [OF assms(2,3)]
  by (simp add: walk_append split: option.splits)

text \<open>
  C8.  In a session whose working directory is a directory without a child \<open>sample\<close>, the
  line \<open>git clone https://example.com/sample.git\<close> ends with the history grown by the
  command entry and one output entry, whose text starts with the \<open>Cloning into\<close> line, has
  grown by the six progress lines and ends with the \<open>Resolving deltas\<close> line; the tree then
  has under the working directory a directory \<open>sample\<close> holding an empty directory \<open>.git\<close>,
  a file \<open>README.md\<close> and a directory \<open>src\<close> with the file \<open>main.js\<close>.  The same line
  again, in the session so reached, only adds the command entry and the fatal
  already-exists message: the tree and the working directory stay as they are.
\<close>

theorem clone_sample:
  fixes s :: session and ch :: "(string \<times> node) list" and rnd rnd' :: "nat \<Rightarrow> draw"
  assumes dir: "getNode (fileSystem s) (cwd s) = Some (Own (Directory ch))"
    and fresh: "map_of ch ''sample'' = None"
  defines "line \<equiv> ''git clone https://example.com/sample.git''"
  defines "out \<equiv> foldl (\<lambda>acc l. acc @ newline @ l)
                    (''Cloning into '' @ [sq] @ ''sample'' @ [sq] @ ''...'') progressLines"
  defines "s' \<equiv> s\<lparr>history := history s @ [Command_item line, Output_item out],
                   commandHistory := command_texts (history s @ [Command_item line, Output_item out]),
                   isLoading := False,
                   fileSystem := modify_node (set_child ''sample'' (cloned_tree ''sample''))
                                   (fileSystem s) (cwd s)\<rparr>"
  defines "fatal \<equiv> ''fatal: destination path '' @ [sq] @ ''sample'' @ [sq]
                     @ '' already exists and is not an empty directory.''"
  shows "executeCommand rnd line s = Finished s'
       \<and> suffix (newline @ ''Resolving deltas: 100% (5/5), done.'') out
       \<and> getNode (fileSystem s') (cwd s @ ''/sample'')
           = Some (Own (Directory
               [(''.git'', Directory []),
                (''README.md'', File (''# sample'' @ newline @ newline
                                       @ ''A repository cloned with the simulator.'')),
                (''src'', Directory
                   [(''main.js'', File (''console.log('' @ [dq] @ ''Hello, World!'' @ [dq] @ '');''))])]))
       \<and> executeCommand rnd' line s'
           = Finished (s'\<lparr>history := history s' @ [Command_item line, Output_item fatal],
                         commandHistory :=
                           command_texts (history s' @ [Command_item line, Output_item fatal]),
                         isLoading := False\<rparr>)"
proof -
  have trim: "trim line = line" unfolding line_def by code_simp
  have pre: "prefix ''git clone'' (trim line)" unfolding line_def by code_simp
  have url: "first_arg (drop 2 (split_ws line)) = Some ''https://example.com/sample.git''"
    unfolding line_def by code_simp
  have name: "repo_name ''https://example.com/sample.git'' = ''sample''" by code_simp
  have clean: "CHR ''/'' \<notin> set ''sample''" "''sample'' \<noteq> []" by simp_all
  have fresh': "child ch ''sample'' = None"
    using fresh by (simp add: child_def inherited_names_def)
  have exec: "executeCommand r line t =
     Finished (git_clone line t
       ((setHistory (\<lambda>prev. prev @ [Command_item line]) t)\<lparr>isLoading := True\<rparr>))" for r t
    using exec_git_clone [OF pre, of r t] unfolding trim .
  let ?s1 = "(setHistory (\<lambda>prev. prev @ [Command_item line]) s)\<lparr>isLoading := True\<rparr>"
  have none: "getNode (fileSystem ?s1) (cwd s @ ''/'' @ repo_name ''https://example.com/sample.git'') = None"
    unfolding name using getNode_absent_child [OF dir clean] fresh'
    by (simp add: setHistory_def Let_def)
  have "git_clone line s ?s1 = s'"
    unfolding git_clone_fresh [OF url none refl]
    unfolding name cloned_ok [OF dir fresh'] s'_def out_def by simp
  then have first: "executeCommand rnd line s = Finished s'"
    unfolding exec by simp
  have tail: "suffix (newline @ ''Resolving deltas: 100% (5/5), done.'') out"
    unfolding out_def by code_simp
  have tree: "getNode (fileSystem s') (cwd s @ ''/'' @ ''sample'') = Some (Own (cloned_tree ''sample''))"
    unfolding s'_def using getNode_new_child [OF dir clean] by simp
  let ?s1' = "(setHistory (\<lambda>prev. prev @ [Command_item line]) s')\<lparr>isLoading := True\<rparr>"
  have there: "getNode (fileSystem ?s1') (cwd s' @ ''/'' @ repo_name ''https://example.com/sample.git'') \<noteq> None"
    unfolding name using tree by (simp add: setHistory_def Let_def s'_def)
  have "git_clone line s' ?s1'
           = s'\<lparr>history := history s' @ [Command_item line, Output_item fatal],
                         commandHistory :=
                           command_texts (history s' @ [Command_item line, Output_item fatal]),
                         isLoading := False\<rparr>"
    unfolding git_clone_exists [OF url there]
    unfolding name fatal_def
    by (simp add: push_output_def setHistory_def Let_def)
  then have second: "executeCommand rnd' line s'
           = Finished (s'\<lparr>history := history s' @ [Command_item line, Output_item fatal],
                         commandHistory :=
                           command_texts (history s' @ [Command_item line, Output_item fatal]),
                         isLoading := False\<rparr>)"
    unfolding exec by simp
  show ?thesis using first tail tree second by (simp add: cloned_tree_def)
qed


theorem clone_sample_witness:
  "getNode (fileSystem example_session) (cwd example_session) = Some (Own (Directory example_home))
   \<and> map_of example_home ''sample'' = None
   \<and> history (session_of (executeCommand (\<lambda>i. (0, 0)) ''git clone https://example.com/sample.git''
         example_session))
       = [Command_item ''git clone https://example.com/sample.git'',
          Output_item (foldl (\<lambda>acc l. acc @ newline @ l)
             (''Cloning into '' @ [sq] @ ''sample'' @ [sq] @ ''...'') progressLines)]
   \<and> getNode (fileSystem (session_of (executeCommand (\<lambda>i. (0, 0))
         ''git clone https://example.com/sample.git'' example_session)))
         ''/home/kali/sample/.git'' = Some (Own (Directory []))"
proof -
  have dir: "getNode (fileSystem example_session) (cwd example_session)
               = Some (Own (Directory example_home))"
    by code_simp
  have fresh: "map_of example_home ''sample'' = None"
    by code_simp
  have tree: "getNode (modify_node (set_child ''sample'' (cloned_tree ''sample''))
                 (fileSystem example_session) (cwd example_session)) ''/home/kali/sample/.git''
              = Some (Own (Directory []))"
    by code_simp
  have "history (session_of (executeCommand (\<lambda>i. (0, 0)) ''git clone https://example.com/sample.git''
         example_session))
       = [Command_item ''git clone https://example.com/sample.git'',
          Output_item (foldl (\<lambda>acc l. acc @ newline @ l)
             (''Cloning into '' @ [sq] @ ''sample'' @ [sq] @ ''...'') progressLines)]
     \<and> getNode (fileSystem (session_of (executeCommand (\<lambda>i. (0, 0))
         ''git clone https://example.com/sample.git'' example_session)))
         ''/home/kali/sample/.git'' = Some (Own (Directory []))"
    using clone_sample [OF dir fresh, of "\<lambda>i. (0, 0)" "\<lambda>i. (0, 0)"] tree
    by (simp add: example_session_def)
  then show ?thesis using dir fresh by blast
qed


section \<open>The repository name of \<open>git clone\<close>\<close>

lemma includes_sublist: "includes_str s q \<longleftrightarrow> sublist q s"
  by (induction s) (simp_all add: sublist_Cons_right)

lemma replace_first_absent:
  "pat \<noteq> [] \<Longrightarrow> \<not> includes_str s pat \<Longrightarrow> replace_first pat rep s = s"
  by (induction s) auto

lemma prefix_butlast:
  assumes "prefix p z" "length p < length z"
  shows "prefix p (butlast z)"
proof -
  obtain r where z: "z = p @ r" using assms(1) by (auto elim: prefixE)
  then have "r \<noteq> []" using assms(2) by auto
  then have "butlast z = p @ butlast r" using z by (simp add: butlast_append)
  then show ?thesis by simp
qed

lemma replace_first_suffix:
  assumes "pat \<noteq> []"
  shows "\<not> includes_str (butlast (base @ pat)) pat \<Longrightarrow> replace_first pat rep (base @ pat) = base @ rep"
proof (induction base)
  case Nil
  obtain p ps where "pat = p # ps" using assms by (cases pat) auto
  then show ?case by simp
next
  case (Cons x b)
  have bl: "butlast ((x # b) @ pat) = x # butlast (b @ pat)" using assms by simp
  have no_here: "\<not> prefix pat (x # butlast (b @ pat))" and no_later: "\<not> includes_str (butlast (b @ pat)) pat"
    using Cons.prems unfolding bl by simp_all
  have "\<not> prefix pat (x # b @ pat)"
  proof
    assume "prefix pat (x # b @ pat)"
    then have "prefix pat (butlast (x # b @ pat))"
      by (rule prefix_butlast) simp
    then show False using no_here assms by simp
  qed
  then show ?case using Cons.IH [OF no_later] by simp
qed

lemma includes_butlast_or_suffix:
  assumes "includes_str s q"
  shows "includes_str (butlast s) q \<or> suffix q s"
proof -
  obtain u v where s: "s = u @ q @ v"
    using assms unfolding includes_sublist sublist_def by blast
  show ?thesis
  proof (cases "v = []")
    case True
    then show ?thesis using s by (simp add: suffix_def)
  next
    case False
    then have "butlast s = u @ q @ butlast v" using s by (simp add: butlast_append)
    then have "sublist q (butlast s)" unfolding sublist_def by blast
    then show ?thesis by (simp add: includes_sublist)
  qed
qed

lemma repo_name_trailing:
  fixes url :: string
  defines "seg \<equiv> last (split_char CHR ''/'' url)"
  assumes only_end: "\<not> includes_str (butlast seg) ''.git''"
  shows "repo_name url =
     (let base = (if suffix ''.git'' seg then take (length seg - 4) seg else seg)
      in if base = [] then ''repository'' else base)"
proof (cases "suffix ''.git'' seg")
  case True
  then obtain base where seg: "seg = base @ ''.git''" by (auto simp: suffix_def)
  have "replace_first ''.git'' [] (base @ ''.git'') = base @ []"
    by (rule replace_first_suffix) (use only_end seg in simp_all)
  then show ?thesis using True seg unfolding repo_name_def seg_def [symmetric] by (simp add: Let_def)
next
  case False
  then have "\<not> includes_str seg ''.git''"
    using includes_butlast_or_suffix [of seg "''.git''"] only_end by blast
  then have "replace_first ''.git'' [] seg = seg"
    by (intro replace_first_absent) simp_all
  then show ?thesis using False unfolding repo_name_def seg_def [symmetric] by (simp add: Let_def)
qed

text \<open>A repository whose name is one that every object inherits: the lookup finds the
  inherited member, and the answer is the fatal already-exists message although no node has
  that name.\<close>

lemma git_clone_inherited_name:
  "getNode (fileSystem example_session) (cwd example_session @ ''/'' @ ''constructor'')
     = Some Inherited
   \<and> history (session_of (executeCommand (\<lambda>i. (0, 0))
         ''git clone https://example.com/constructor.git'' example_session))
       = [Command_item ''git clone https://example.com/constructor.git'',
          Output_item (''fatal: destination path '' @ [sq] @ ''constructor'' @ [sq]
                       @ '' already exists and is not an empty directory.'')]
   \<and> fileSystem (session_of (executeCommand (\<lambda>i. (0, 0))
         ''git clone https://example.com/constructor.git'' example_session))
       = fileSystem example_session"
  by code_simp

text \<open>
  C2 (as amended).  For a line that starts with \<open>git clone\<close>: without a URL token the
  answer is the fatal message that a repository must be specified.  With a URL, the
  repository name comes from the last \<open>/\<close>-separated segment of the URL: when \<open>.git\<close> occurs
  in that segment nowhere before its end, the name is the segment without a trailing
  \<open>.git\<close>, and \<open>repository\<close> when that is empty.  When a node exists at the working
  directory followed by \<open>/\<close> and the name, the answer is the fatal already-exists message
  and the tree and the working directory stay as they are; when the lookup there finds
  nothing, the clone runs under that name.
\<close>

theorem git_clone_name_and_collision:
  fixes c url :: string and s :: session and rnd :: "nat \<Rightarrow> draw"
  assumes clone: "prefix ''git clone'' (trim c)"
  defines "seg \<equiv> last (split_char CHR ''/'' url)"
  defines "s1 \<equiv> (setHistory (\<lambda>prev. prev @ [Command_item (trim c)]) s)\<lparr>isLoading := True\<rparr>"
  defines "out \<equiv> foldl (\<lambda>acc l. acc @ newline @ l)
                    (''Cloning into '' @ [sq] @ repo_name url @ [sq] @ ''...'') progressLines"
  shows "(first_arg (drop 2 (split_ws (trim c))) = None \<longrightarrow>
            executeCommand rnd c s
              = Finished ((push_output ''fatal: You must specify a repository to clone.'' s1)
                            \<lparr>isLoading := False\<rparr>))
       \<and> (\<not> includes_str (butlast seg) ''.git'' \<longrightarrow>
            repo_name url =
              (let base = (if suffix ''.git'' seg then take (length seg - 4) seg else seg)
               in if base = [] then ''repository'' else base))
       \<and> (first_arg (drop 2 (split_ws (trim c))) = Some url
            \<and> is_node (getNode (fileSystem s) (cwd s @ ''/'' @ repo_name url)) \<longrightarrow>
            executeCommand rnd c s
              = Finished ((push_output (''fatal: destination path '' @ [sq] @ repo_name url @ [sq]
                             @ '' already exists and is not an empty directory.'') s1)
                            \<lparr>isLoading := False\<rparr>)
            \<and> fileSystem (session_of (executeCommand rnd c s)) = fileSystem s
            \<and> cwd (session_of (executeCommand rnd c s)) = cwd s)
       \<and> (first_arg (drop 2 (split_ws (trim c))) = Some url
            \<and> getNode (fileSystem s) (cwd s @ ''/'' @ repo_name url) = None \<longrightarrow>
            executeCommand rnd c s
              = Finished (s\<lparr>history := history s @ [Command_item (trim c), Output_item out],
                            commandHistory :=
                              command_texts (history s @ [Command_item (trim c), Output_item out]),
                            isLoading := False,
                            fileSystem := snd (createClonedDirectory (cwd s) (repo_name url)
                                                 (fileSystem s))\<rparr>))"
proof (intro conjI impI)
  assume "first_arg (drop 2 (split_ws (trim c))) = None"
  then show "executeCommand rnd c s
              = Finished ((push_output ''fatal: You must specify a repository to clone.'' s1)
                            \<lparr>isLoading := False\<rparr>)"
    unfolding exec_git_clone [OF clone] s1_def by (simp add: git_clone_missing)
next
  assume "\<not> includes_str (butlast seg) ''.git''"
  then show "repo_name url =
              (let base = (if suffix ''.git'' seg then take (length seg - 4) seg else seg)
               in if base = [] then ''repository'' else base)"
    unfolding seg_def by (rule repo_name_trailing)
next
  assume a: "first_arg (drop 2 (split_ws (trim c))) = Some url
            \<and> is_node (getNode (fileSystem s) (cwd s @ ''/'' @ repo_name url))"
  have fs1: "fileSystem s1 = fileSystem s" by (simp add: s1_def setHistory_def Let_def)
  have there: "getNode (fileSystem s1) (cwd s @ ''/'' @ repo_name url) \<noteq> None"
    using a unfolding fs1
    by (cases "getNode (fileSystem s) (cwd s @ ''/'' @ repo_name url)") simp_all
  show e: "executeCommand rnd c s
              = Finished ((push_output (''fatal: destination path '' @ [sq] @ repo_name url @ [sq]
                             @ '' already exists and is not an empty directory.'') s1)
                            \<lparr>isLoading := False\<rparr>)"
    unfolding exec_git_clone [OF clone] s1_def [symmetric]
    using git_clone_exists [OF conjunct1 [OF a] there] by simp
  show "fileSystem (session_of (executeCommand rnd c s)) = fileSystem s"
    unfolding e by (simp add: push_output_def setHistory_def Let_def s1_def)
  show "cwd (session_of (executeCommand rnd c s)) = cwd s"
    unfolding e by (simp add: push_output_def setHistory_def Let_def s1_def)
next
  assume a: "first_arg (drop 2 (split_ws (trim c))) = Some url
            \<and> getNode (fileSystem s) (cwd s @ ''/'' @ repo_name url) = None"
  have fs1: "fileSystem s1 = fileSystem s" by (simp add: s1_def setHistory_def Let_def)
  have none: "getNode (fileSystem s1) (cwd s @ ''/'' @ repo_name url) = None"
    using a fs1 by simp
  show "executeCommand rnd c s
              = Finished (s\<lparr>history := history s @ [Command_item (trim c), Output_item out],
                            commandHistory :=
                              command_texts (history s @ [Command_item (trim c), Output_item out]),
                            isLoading := False,
                            fileSystem := snd (createClonedDirectory (cwd s) (repo_name url)
                                                 (fileSystem s))\<rparr>)"
    unfolding exec_git_clone [OF clone] s1_def [symmetric] out_def
    using git_clone_fresh [OF conjunct1 [OF a] none s1_def [THEN meta_eq_to_obj_eq]] by simp
qed

theorem git_clone_name_and_collision_witness:
  "prefix ''git clone'' (trim ''  git clone https://example.com/documents.git '')
   \<and> first_arg (drop 2 (split_ws (trim ''  git clone https://example.com/documents.git '')))
       = Some ''https://example.com/documents.git''
   \<and> \<not> includes_str (butlast (last (split_char CHR ''/'' ''https://example.com/documents.git'')))
          ''.git''
   \<and> repo_name ''https://example.com/documents.git'' = ''documents''
   \<and> is_node (getNode (fileSystem example_session)
         (cwd example_session @ ''/'' @ repo_name ''https://example.com/documents.git''))
   \<and> fileSystem (session_of (executeCommand (\<lambda>i. (0, 0))
         ''  git clone https://example.com/documents.git '' example_session))
       = fileSystem example_session"
proof -
  have pre: "prefix ''git clone'' (trim ''  git clone https://example.com/documents.git '')"
    by code_simp
  have url: "first_arg (drop 2 (split_ws (trim ''  git clone https://example.com/documents.git '')))
       = Some ''https://example.com/documents.git''"
    by code_simp
  have once: "\<not> includes_str (butlast (last (split_char CHR ''/'' ''https://example.com/documents.git'')))
          ''.git''"
    by code_simp
  have there: "is_node (getNode (fileSystem example_session)
         (cwd example_session @ ''/'' @ repo_name ''https://example.com/documents.git''))"
    by code_simp
  note inst = git_clone_name_and_collision [OF pre, where url = "''https://example.com/documents.git''"
      and rnd = "\<lambda>i. (0, 0)" and s = example_session]
  have name: "repo_name ''https://example.com/documents.git'' = ''documents''"
    using inst once by code_simp
  have same: "fileSystem (session_of (executeCommand (\<lambda>i. (0, 0))
         ''  git clone https://example.com/documents.git '' example_session))
       = fileSystem example_session"
    using inst url there by blast
  show ?thesis using pre url once name there same by blast
qed

text \<open>C2 as stated: a \<open>.git\<close> inside the segment is removed and the trailing one then stays,
  and a line without URL gets the fatal message instead of the fallback name.\<close>

theorem git_clone_name_counterexample:
  "repo_name ''https://example.com/my.github.io'' = ''myhub.io''
   \<and> repo_name ''https://example.com/a.gitb.git'' = ''ab.git''
   \<and> history (session_of (executeCommand (\<lambda>i. (0, 0)) ''git clone'' example_session))
       = [Command_item ''git clone'',
          Output_item ''fatal: You must specify a repository to clone.'']"
  by code_simp



section \<open>\<open>git commit\<close>\<close>

lemma match_quoted_sound:
  assumes "match_quoted q s = Some m"
  shows "\<exists>ws post. s = ''-m'' @ ws @ q # m @ q # post
           \<and> ws \<noteq> [] \<and> (\<forall>c \<in> set ws. is_space c) \<and> m \<noteq> [] \<and> q \<notin> set m"
proof -
  from assms have pre: "prefix ''-m'' s"
    by (simp add: match_quoted_def split: if_splits)
  then obtain r where s: "s = ''-m'' @ r" by (auto elim: prefixE)
  define ws where "ws = takeWhile is_space r"
  define r' where "r' = dropWhile is_space r"
  have r: "r = ws @ r'" by (simp add: ws_def r'_def)
  have dr: "drop 2 s = r" using s by simp
  from assms pre have ws: "ws \<noteq> []"
    by (simp add: match_quoted_def Let_def dr ws_def split: if_splits)
  have A: "(case r' of [] \<Rightarrow> None
            | c # t \<Rightarrow>
                if c = q
                then (case dropWhile (\<lambda>x. x \<noteq> q) t of
                        [] \<Rightarrow> None
                      | _ # _ \<Rightarrow>
                          if takeWhile (\<lambda>x. x \<noteq> q) t = [] then None
                          else Some (takeWhile (\<lambda>x. x \<noteq> q) t))
                else None) = Some m"
    using assms pre ws by (simp add: match_quoted_def Let_def dr ws_def r'_def)
  then obtain c t where ct: "r' = c # t" by (cases r') auto
  have cq: "c = q" using A unfolding ct by (simp split: if_splits)
  have r': "r' = q # t" using ct cq by simp
  have B: "(case dropWhile (\<lambda>x. x \<noteq> q) t of
              [] \<Rightarrow> None
            | _ # _ \<Rightarrow>
                if takeWhile (\<lambda>x. x \<noteq> q) t = [] then None
                else Some (takeWhile (\<lambda>x. x \<noteq> q) t)) = Some m"
    using A unfolding r' by simp
  then have rest: "dropWhile (\<lambda>x. x \<noteq> q) t \<noteq> []"
    by (cases "dropWhile (\<lambda>x. x \<noteq> q) t") auto
  have m: "m = takeWhile (\<lambda>x. x \<noteq> q) t" "m \<noteq> []"
    using B rest by (cases "dropWhile (\<lambda>x. x \<noteq> q) t"; simp split: if_splits)+
  obtain d post where dp: "dropWhile (\<lambda>x. x \<noteq> q) t = d # post"
    using rest by (cases "dropWhile (\<lambda>x. x \<noteq> q) t") auto
  have "\<not> (hd (dropWhile (\<lambda>x. x \<noteq> q) t) \<noteq> q)"
    by (rule hd_dropWhile) (rule rest)
  then have d: "d = q" using dp by simp
  have t: "t = m @ q # post"
    using takeWhile_dropWhile_id [of "\<lambda>x. x \<noteq> q" t] dp d m(1) by simp
  have "q \<notin> set m" unfolding m(1) by (metis (mono_tags, lifting) set_takeWhileD)
  moreover have "\<forall>c \<in> set ws. is_space c" unfolding ws_def by (auto dest: set_takeWhileD)
  moreover have "s = ''-m'' @ ws @ q # m @ q # post" using s r r' t by simp
  ultimately show ?thesis using ws m(2) by blast
qed

lemma match_quoted_complete:
  assumes "\<not> is_space q" "ws \<noteq> []" "\<forall>c \<in> set ws. is_space c" "msg \<noteq> []" "q \<notin> set msg"
  shows "match_quoted q (''-m'' @ ws @ q # msg @ q # post) = Some msg"
proof -
  have tw: "takeWhile is_space (ws @ q # msg @ q # post) = ws"
    using assms(1,3) by (induction ws) auto
  have dw: "dropWhile is_space (ws @ q # msg @ q # post) = q # msg @ q # post"
    using assms(1,3) by (induction ws) auto
  have tm: "takeWhile (\<lambda>x. x \<noteq> q) (msg @ q # post) = msg"
    using assms(5) by (induction msg) auto
  have dm: "dropWhile (\<lambda>x. x \<noteq> q) (msg @ q # post) = q # post"
    using assms(5) by (induction msg) auto
  show ?thesis
    using assms(2,4) by (simp add: match_quoted_def Let_def tw dw tm dm)
qed

lemma commit_match_sound: "commit_match s = Some m \<Longrightarrow> m \<noteq> [] \<and> has_message s"
proof (induction s)
  case Nil
  then show ?case by simp
next
  case (Cons c cs)
  have here: "match_quoted q (c # cs) = Some m \<Longrightarrow> m \<noteq> [] \<and> quoted_message_at q (c # cs)" for q
  proof -
    assume "match_quoted q (c # cs) = Some m"
    from match_quoted_sound [OF this] obtain ws post where
      "c # cs = [] @ ''-m'' @ ws @ q # m @ q # post" "ws \<noteq> []" "\<forall>c \<in> set ws. is_space c"
      "m \<noteq> []" "q \<notin> set m" by auto
    then show ?thesis unfolding quoted_message_at_def by blast
  qed
  have later: "quoted_message_at q cs \<Longrightarrow> quoted_message_at q (c # cs)" for q
  proof -
    assume "quoted_message_at q cs"
    then obtain pre ws msg post where
      "cs = pre @ ''-m'' @ ws @ q # msg @ q # post" "ws \<noteq> []" "\<forall>c \<in> set ws. is_space c"
      "msg \<noteq> []" "q \<notin> set msg" unfolding quoted_message_at_def by blast
    then have "c # cs = (c # pre) @ ''-m'' @ ws @ q # msg @ q # post" by simp
    then show ?thesis unfolding quoted_message_at_def
      using \<open>ws \<noteq> []\<close> \<open>\<forall>c \<in> set ws. is_space c\<close> \<open>msg \<noteq> []\<close> \<open>q \<notin> set msg\<close> by blast
  qed
  show ?case
  proof (cases "match_quoted dq (c # cs)")
    case (Some a)
    then show ?thesis using Cons.prems here [of dq] by (simp add: has_message_def)
  next
    case None
    show ?thesis
    proof (cases "match_quoted sq (c # cs)")
      case (Some a)
      then show ?thesis using None Cons.prems here [of sq] by (simp add: has_message_def)
    next
      case None': None
      then have "commit_match cs = Some m" using None Cons.prems by simp
      then show ?thesis using Cons.IH later unfolding has_message_def by blast
    qed
  qed
qed

lemma quotes_not_space: "\<not> is_space dq" "\<not> is_space sq"
  by (simp_all add: is_space_def dq_def sq_def)

lemma commit_match_complete_at:
  assumes "q = dq \<or> q = sq" "ws \<noteq> []" "\<forall>c \<in> set ws. is_space c" "msg \<noteq> []" "q \<notin> set msg"
  shows "commit_match (pre @ ''-m'' @ ws @ q # msg @ q # post) \<noteq> None"
proof (induction pre)
  case Nil
  have m: "match_quoted q (''-m'' @ ws @ q # msg @ q # post) = Some msg"
    using assms quotes_not_space by (intro match_quoted_complete) auto
  obtain rest where shape: "''-m'' @ ws @ q # msg @ q # post = CHR ''-'' # rest" by simp
  show ?case using m assms(1) unfolding append_Nil shape
    by (auto split: option.splits)
next
  case (Cons x pre)
  then show ?case by (auto split: option.splits)
qed

lemma commit_match_complete: "has_message s \<Longrightarrow> commit_match s \<noteq> None"
  unfolding has_message_def quoted_message_at_def
  using commit_match_complete_at by blast

lemma commit_match_iff: "commit_match s = None \<longleftrightarrow> \<not> has_message s"
  using commit_match_complete [of s] commit_match_sound [of s] by (cases "commit_match s") auto


text \<open>Rounding to 53 binary digits adds less than one part in \<open>2\<^sup>5\<^sup>3\<close>, so the product of a
  draw and \<open>k\<close> stays below \<open>k\<close>.\<close>

lemma bit_length_bounds: "0 < n \<Longrightarrow> 2 ^ (bit_length n - 1) \<le> n \<and> n < 2 ^ bit_length n"
proof (induction n rule: bit_length.induct)
  case (1 n)
  show ?case
  proof (cases "n div 2 = 0")
    case True
    then have "n = 1" using 1(2) by simp
    then show ?thesis by (simp add: bit_length.simps)
  next
    case False
    then have IH: "2 ^ (bit_length (n div 2) - 1) \<le> n div 2" "n div 2 < 2 ^ bit_length (n div 2)"
      using 1 by simp_all
    have pos: "0 < bit_length (n div 2)" using False by (subst bit_length.simps) simp
    have bl: "bit_length n = Suc (bit_length (n div 2))" using 1(2) by (subst bit_length.simps) simp
    have "2 ^ (bit_length n - 1) = 2 * 2 ^ (bit_length (n div 2) - 1)"
      using pos bl by (cases "bit_length (n div 2)") simp_all
    also have "\<dots> \<le> 2 * (n div 2)" using IH(1) by simp
    also have "\<dots> \<le> n" by simp
    finally have low: "2 ^ (bit_length n - 1) \<le> n" .
    have "n < 2 * (n div 2) + 2" by arith
    also have "\<dots> \<le> 2 * 2 ^ bit_length (n div 2)" using IH(2) by simp
    finally have "n < 2 ^ bit_length n" using bl by simp
    then show ?thesis using low by simp
  qed
qed

lemma round53_le: "round53 n \<le> n + n div 2 ^ 53"
proof (cases "n < 2 ^ 53")
  case True
  then show ?thesis by (simp add: round53_def)
next
  case False
  define sh where "sh = bit_length n - 53"
  define q where "q = n div 2 ^ sh"
  define r where "r = n mod 2 ^ sh"
  define half :: nat where "half = 2 ^ (sh - 1)"
  have npos: "0 < n" using False by (cases "n = 0") simp_all
  have bl: "2 ^ (bit_length n - 1) \<le> n" "n < 2 ^ bit_length n"
    using bit_length_bounds [OF npos] by simp_all
  have lt: "(2::nat) ^ 53 < 2 ^ bit_length n" using False bl(2) by simp
  have big: "53 < bit_length n" by (rule power_less_imp_less_exp [OF _ lt]) simp
  then have sh: "0 < sh" by (simp add: sh_def)
  have two: "(2::nat) ^ sh = 2 * half" using sh unfolding half_def by (cases sh) simp_all
  have n: "n = q * 2 ^ sh + r" unfolding q_def r_def by (rule div_mult_mod_eq [symmetric])
  have "bit_length n - 1 = (sh - 1) + 53" using big by (simp add: sh_def)
  then have "half * 2 ^ 53 \<le> n" using bl(1) by (simp add: half_def power_add)
  then have half_le: "half \<le> n div 2 ^ 53"
    by (simp add: less_eq_div_iff_mult_less_eq)
  have val: "round53 n = (if r < half \<or> (r = half \<and> even q) then q else q + 1) * 2 ^ sh"
    using False by (simp add: round53_def Let_def sh_def q_def r_def half_def)
  have "round53 n \<le> n + half"
  proof (cases "r < half \<or> (r = half \<and> even q)")
    case True
    then show ?thesis using val n by simp
  next
    case False
    then have "half \<le> r" by auto
    moreover have "round53 n = q * 2 ^ sh + 2 * half" using val False two by (simp add: algebra_simps)
    ultimately show ?thesis using n by simp
  qed
  then show ?thesis using half_le by simp
qed

lemma floor_times_less:
  assumes "is_draw d" "0 < k"
  shows "floor_times k d < k"
proof -
  obtain m e where d: "d = (m, e)" by (cases d)
  have m: "m < 2 ^ 53" "m < 2 ^ e" using assms(1) by (simp_all add: is_draw_def d)
  have "k * m div 2 ^ 53 < k"
    using m(1) assms(2) by (simp add: less_mult_imp_div_less mult.commute)
  then have "round53 (k * m) < k * m + k"
    using round53_le [of "k * m"] by simp
  also have "\<dots> = k * (m + 1)" by simp
  also have "\<dots> \<le> k * 2 ^ e" using m(2) by (intro mult_le_mono2) simp
  finally have "round53 (k * m) < k * 2 ^ e" .
  then show ?thesis by (simp add: floor_times_def d less_mult_imp_div_less mult.commute)
qed

text \<open>Where the rounding shows: the doubles nearest to 0.95 and to two thirds.  Their exact
  products with 20 and with 3 lie below 19 and below 2, the rounded products are 19 and 2.\<close>

lemma double_rounding_examples:
  "is_draw (8556839292003942, 53)"
  "20 * 8556839292003942 div 2 ^ 53 = (18::nat)"
  "insertions (\<lambda>i. (8556839292003942, 53)) = 20"
  "is_draw (6004799503160661, 53)"
  "3 * 6004799503160661 div 2 ^ 53 = (1::nat)"
  "files_changed (\<lambda>i. (6004799503160661, 53)) = 3"
  by (simp_all add: is_draw_def insertions_def files_changed_def floor_times_def round53_def
        bit_length.simps Let_def)

lemma hex_char_is_hex:
  assumes "is_draw d"
  shows "is_hex (hex_char d)"
proof -
  have "floor_times 16 d < 16" using floor_times_less [OF assms, of 16] by simp
  then have "''0123456789abcdef'' ! floor_times 16 d \<in> set ''0123456789abcdef''"
    by (intro nth_mem) simp
  then show ?thesis unfolding is_hex_def hex_char_def .
qed

lemma commit_hash_hex:
  assumes "\<forall>i. is_draw (rnd i)"
  shows "length (commit_hash rnd) = 7" and "\<forall>c \<in> set (commit_hash rnd). is_hex c"
  using assms by (auto simp: commit_hash_def hex_char_is_hex)

lemma commit_counts:
  assumes "\<forall>i. is_draw (rnd i)"
  shows "1 \<le> files_changed rnd" "files_changed rnd \<le> 3"
    "1 \<le> insertions rnd" "insertions rnd \<le> 20"
proof -
  have "floor_times 3 (rnd 7) < 3" using floor_times_less [of "rnd 7" 3] assms by simp
  then show "1 \<le> files_changed rnd" "files_changed rnd \<le> 3"
    by (simp_all add: files_changed_def)
  have "floor_times 20 (rnd 8) < 20" using floor_times_less [of "rnd 8" 20] assms by simp
  then show "1 \<le> insertions rnd" "insertions rnd \<le> 20"
    by (simp_all add: insertions_def)
qed

lemma exec_git_commit:
  assumes "prefix ''git commit'' (trim c)"
  shows "executeCommand rnd c s =
     Finished (git_commit rnd (trim c)
       ((setHistory (\<lambda>prev. prev @ [Command_item (trim c)]) s)\<lparr>isLoading := True\<rparr>))"
proof -
  obtain r where r: "trim c = ''git commit'' @ r" using assms by (auto elim: prefixE)
  have "toLowerCase (trim c) \<noteq> ''clear''"
    unfolding r by (simp add: toLowerCase_def to_lower_def)
  moreover have "trim c \<noteq> []" unfolding r by simp
  moreover have "\<not> prefix ''git clone'' (trim c)" unfolding r by simp
  ultimately show ?thesis using assms by (simp add: executeCommand_def Let_def)
qed

lemma git_commit_history:
  assumes "prefix ''git commit'' (trim c)"
  shows "history (session_of (executeCommand rnd c s))
           = history s @ [Command_item (trim c), Output_item (commit_output rnd (trim c))]"
  unfolding exec_git_commit [OF assms]
  by (simp add: git_commit_def push_output_def setHistory_def Let_def)

lemma half_draws:
  "commit_hash (\<lambda>i. (1, 1)) = ''8888888''"
  "files_changed (\<lambda>i. (1, 1)) = 2"
  "insertions (\<lambda>i. (1, 1)) = 11"
  by (simp_all add: commit_hash_def hex_char_def files_changed_def insertions_def
        floor_times_def round53_def upt_rec [of _ "numeral n" for n])

text \<open>
  C5 (as amended).  The numbers drawn at random are doubles in \<open>[0, 1)\<close>.  For a line that
  starts with \<open>git commit\<close>, the history grows by the command entry and one output entry.
  When the line carries a quoted message (\<open>-m\<close>, at least one white-space character, and a
  non-empty text between two double or two single quotes), the output is
  \<open>[main <hash>] <message>\<close> followed by the line
  \<open> <files> file changed, <insertions> insertions(+)\<close>, where the hash has exactly 7
  characters, all of them lower-case hexadecimal digits, the file count lies between 1 and
  3 and the insertion count between 1 and 20.  When the line carries no such message, the
  output is the missing-message fatal error, which contains no run of 7 hexadecimal
  digits.
\<close>

theorem git_commit_output:
  fixes c :: string and s :: session and rnd :: "nat \<Rightarrow> draw"
  assumes rnd: "\<forall>i. is_draw (rnd i)"
    and commit: "prefix ''git commit'' (trim c)"
  shows "history (session_of (executeCommand rnd c s))
           = history s @ [Command_item (trim c), Output_item (commit_output rnd (trim c))]
       \<and> (has_message (trim c) \<longrightarrow>
            (\<exists>msg. msg \<noteq> [] \<and>
               commit_output rnd (trim c)
                 = ''[main '' @ commit_hash rnd @ ''] '' @ msg @ newline @ '' ''
                     @ show_nat (files_changed rnd) @ '' file changed, ''
                     @ show_nat (insertions rnd) @ '' insertions(+)''))
       \<and> length (commit_hash rnd) = 7
       \<and> (\<forall>c \<in> set (commit_hash rnd). is_hex c)
       \<and> 1 \<le> files_changed rnd \<and> files_changed rnd \<le> 3
       \<and> 1 \<le> insertions rnd \<and> insertions rnd \<le> 20
       \<and> (\<not> has_message (trim c) \<longrightarrow> commit_output rnd (trim c) = missing_message)
       \<and> \<not> has_hex_run 7 missing_message"
proof -
  have hist: "history (session_of (executeCommand rnd c s))
           = history s @ [Command_item (trim c), Output_item (commit_output rnd (trim c))]"
    by (rule git_commit_history [OF commit])
  have shape: "has_message (trim c) \<longrightarrow>
            (\<exists>msg. msg \<noteq> [] \<and>
               commit_output rnd (trim c)
                 = ''[main '' @ commit_hash rnd @ ''] '' @ msg @ newline @ '' ''
                     @ show_nat (files_changed rnd) @ '' file changed, ''
                     @ show_nat (insertions rnd) @ '' insertions(+)'')"
  proof
    assume "has_message (trim c)"
    then obtain msg where m: "commit_match (trim c) = Some msg"
      using commit_match_complete by blast
    then have "msg \<noteq> []" using commit_match_sound by blast
    then show "\<exists>msg. msg \<noteq> [] \<and>
               commit_output rnd (trim c)
                 = ''[main '' @ commit_hash rnd @ ''] '' @ msg @ newline @ '' ''
                     @ show_nat (files_changed rnd) @ '' file changed, ''
                     @ show_nat (insertions rnd) @ '' insertions(+)''"
      using m by (intro exI [of _ msg]) (simp add: commit_output_def)
  qed
  have miss: "\<not> has_message (trim c) \<longrightarrow> commit_output rnd (trim c) = missing_message"
    by (simp add: commit_output_def commit_match_iff [symmetric])
  have quiet: "\<not> has_hex_run 7 missing_message" by code_simp
  show ?thesis
    using hist shape miss quiet commit_hash_hex [OF rnd] commit_counts [OF rnd] by blast
qed

theorem git_commit_output_witness:
  "is_draw (1, 1)
   \<and> prefix ''git commit'' (trim (''git commit -m '' @ [dq] @ ''fix bug'' @ [dq]))
   \<and> has_message (trim (''git commit -m '' @ [dq] @ ''fix bug'' @ [dq]))
   \<and> history (session_of (executeCommand (\<lambda>i. (1, 1))
         (''git commit -m '' @ [dq] @ ''fix bug'' @ [dq]) example_session))
       = [Command_item (''git commit -m '' @ [dq] @ ''fix bug'' @ [dq]),
          Output_item (''[main 8888888] fix bug'' @ newline
                       @ '' 2 file changed, 11 insertions(+)'')]
   \<and> \<not> has_message (trim ''git commit'')
   \<and> history (session_of (executeCommand (\<lambda>i. (1, 1)) ''git commit'' example_session))
       = [Command_item ''git commit'', Output_item missing_message]"
proof -
  let ?line = "''git commit -m '' @ [dq] @ ''fix bug'' @ [dq]"
  have draw: "is_draw (1, 1)" by (simp add: is_draw_def)
  then have rnd: "\<forall>i::nat. is_draw ((\<lambda>i. (1, 1)) i)" by simp
  have pre: "prefix ''git commit'' (trim ?line)" and pre': "prefix ''git commit'' (trim ''git commit'')"
    by code_simp+
  have trim: "trim ?line = ?line" and trim': "trim ''git commit'' = ''git commit''"
    by code_simp+
  have "?line = ''git commit '' @ ''-m'' @ '' '' @ dq # ''fix bug'' @ dq # []"
    by simp
  moreover have "\<forall>c \<in> set '' ''. is_space c" by (simp add: is_space_def)
  moreover have "dq \<notin> set ''fix bug''" by (simp add: dq_def)
  ultimately have "quoted_message_at dq ?line"
    unfolding quoted_message_at_def by blast
  then have msg: "has_message (trim ?line)"
    unfolding trim has_message_def by simp
  have "commit_match ''git commit'' = None" by code_simp
  then have "\<not> has_message ''git commit''"
    unfolding commit_match_iff .
  then have nomsg: "\<not> has_message (trim ''git commit'')"
    unfolding trim' .
  have found: "commit_match ?line = Some ''fix bug''" by code_simp
  have two: "show_nat 2 = ''2''" and eleven: "show_nat 11 = ''11''" by code_simp+
  have out: "commit_output (\<lambda>i. (1, 1)) ?line
       = ''[main 8888888] fix bug'' @ newline @ '' 2 file changed, 11 insertions(+)''"
    unfolding commit_output_def found half_draws two eleven by simp
  have empty: "history example_session = []" by code_simp
  have "history (session_of (executeCommand (\<lambda>i. (1, 1)) ?line example_session))
       = [Command_item ?line,
          Output_item (''[main 8888888] fix bug'' @ newline
                       @ '' 2 file changed, 11 insertions(+)'')]"
    using git_commit_output [OF rnd pre, of example_session] unfolding trim out empty by simp
  moreover have "history (session_of (executeCommand (\<lambda>i. (1, 1)) ''git commit'' example_session))
       = [Command_item ''git commit'', Output_item missing_message]"
    using git_commit_output [OF rnd pre', of example_session] nomsg unfolding trim' empty by simp
  ultimately show ?thesis using draw pre msg nomsg by simp
qed

text \<open>C5 as stated: in \<open>git commit -m"fix bug"\<close> the flag is followed by a double-quoted
  message, but no white space stands between them; the answer is the missing-message fatal
  error, without a hash.\<close>

theorem git_commit_no_space_counterexample:
  "quoted_message_after_flag dq (''git commit -m'' @ [dq] @ ''fix bug'' @ [dq])
   \<and> history (session_of (executeCommand (\<lambda>i. (1, 1))
         (''git commit -m'' @ [dq] @ ''fix bug'' @ [dq]) example_session))
       = [Command_item (''git commit -m'' @ [dq] @ ''fix bug'' @ [dq]),
          Output_item missing_message]
   \<and> \<not> has_hex_run 7 missing_message"
proof -
  let ?line = "''git commit -m'' @ [dq] @ ''fix bug'' @ [dq]"
  have "?line = ''git commit '' @ ''-m'' @ dq # ''fix bug'' @ dq # []" by simp
  moreover have "dq \<notin> set ''fix bug''" by (simp add: dq_def)
  ultimately have flag: "quoted_message_after_flag dq ?line"
    unfolding quoted_message_after_flag_def by blast
  have pre: "prefix ''git commit'' (trim ?line)" and trim: "trim ?line = ?line"
    by code_simp+
  have none: "commit_match ?line = None" by code_simp
  have empty: "history example_session = []" by code_simp
  have "history (session_of (executeCommand (\<lambda>i. (1, 1)) ?line example_session))
       = [Command_item ?line, Output_item missing_message]"
    unfolding git_commit_history [OF pre] trim empty commit_output_def none by simp
  moreover have "\<not> has_hex_run 7 missing_message" by code_simp
  ultimately show ?thesis using flag by simp
qed


section \<open>Reverse search\<close>

lemma scan_back_found:
  "k \<le> length entries \<Longrightarrow> i < k \<Longrightarrow> includes_str (entries ! i) q \<Longrightarrow>
   (\<forall>j. i < j \<and> j < k \<longrightarrow> \<not> includes_str (entries ! j) q) \<Longrightarrow>
   scan_back entries q k = Inr (Some i)"
proof (induction k)
  case 0
  then show ?case by simp
next
  case (Suc k)
  show ?case
  proof (cases "i = k")
    case True
    then show ?thesis using Suc.prems by simp
  next
    case False
    then have "i < k" using Suc.prems by simp
    moreover have "\<not> includes_str (entries ! k) q" using Suc.prems \<open>i < k\<close> by simp
    ultimately show ?thesis using Suc by simp
  qed
qed

lemma scan_back_none:
  "k \<le> length entries \<Longrightarrow> (\<forall>j<k. \<not> includes_str (entries ! j) q) \<Longrightarrow>
   scan_back entries q k = Inr None"
  by (induction k) simp_all

lemma scan_back_total:
  "k \<le> length entries \<Longrightarrow>
   \<exists>r. scan_back entries q k = Inr r \<and> (\<forall>i. r = Some i \<longrightarrow> i < k)"
  by (induction k) auto

lemma performSearch_total:
  assumes "k \<le> length (commandHistory s)"
  shows "\<exists>s'. performSearch q k s = Inr s'
           \<and> isSearching s' = isSearching s \<and> commandHistory s' = commandHistory s
           \<and> (searchIndex s' = searchIndex s \<or> searchIndex s' < k)"
proof -
  obtain r where r: "scan_back (commandHistory s) q k = Inr r" "\<forall>i. r = Some i \<longrightarrow> i < k"
    using scan_back_total [OF assms] by blast
  show ?thesis using r by (cases r) (auto simp: performSearch_def)
qed

text \<open>
  C7.  \<open>performSearch\<close> with the empty query empties the input and searches nothing.  With a
  non-empty query and a cursor \<open>k\<close> inside the log, it takes the entry with the greatest
  index below \<open>k\<close> that contains the query as a substring: that entry becomes the input and
  its index the cursor; when no entry below \<open>k\<close> contains the query, the session stays as
  it is.  In search mode, a single printable character is appended to the query, and
  backspace removes its last character; both set the cursor to the length of the log and
  search from there, while the search key again searches with the same query from the
  current cursor.  A cursor inside the log stays inside the log, and then no key fails.
\<close>

theorem reverse_search:
  fixes s :: session and e :: key_event and q :: string and k i :: nat
  defines "entries \<equiv> commandHistory s"
  shows "performSearch [] k s = Inr (s\<lparr>input := []\<rparr>)
       \<and> (q \<noteq> [] \<and> k \<le> length entries \<and> i < k \<and> sublist q (entries ! i)
            \<and> (\<forall>j. i < j \<and> j < k \<longrightarrow> \<not> sublist q (entries ! j)) \<longrightarrow>
            performSearch q k s = Inr (s\<lparr>input := entries ! i, searchIndex := i\<rparr>))
       \<and> (q \<noteq> [] \<and> k \<le> length entries \<and> (\<forall>j<k. \<not> sublist q (entries ! j)) \<longrightarrow>
            performSearch q k s = Inr s)
       \<and> (isSearching s \<and> length (key e) = 1 \<and> \<not> ctrlKey e \<and> \<not> metaKey e \<and> \<not> altKey e \<longrightarrow>
            handleKeyDown e s
              = performSearch (searchQuery s @ key e) (length entries)
                  (s\<lparr>searchQuery := searchQuery s @ key e, searchIndex := length entries\<rparr>))
       \<and> (isSearching s \<and> key e = ''Backspace'' \<longrightarrow>
            handleKeyDown e s
              = performSearch (butlast (searchQuery s)) (length entries)
                  (s\<lparr>searchQuery := butlast (searchQuery s), searchIndex := length entries\<rparr>))
       \<and> (isSearching s \<and> ctrlKey e \<and> key e = ''r'' \<longrightarrow>
            handleKeyDown e s = performSearch (searchQuery s) (searchIndex s) s)
       \<and> ((isSearching s \<longrightarrow> searchIndex s \<le> length entries) \<longrightarrow>
            (\<exists>s'. handleKeyDown e s = Inr s'
                  \<and> (isSearching s' \<longrightarrow> searchIndex s' \<le> length (commandHistory s'))))"
proof (intro conjI impI)
  show "performSearch [] k s = Inr (s\<lparr>input := []\<rparr>)"
    by (simp add: performSearch_def)
next
  assume a: "q \<noteq> [] \<and> k \<le> length entries \<and> i < k \<and> sublist q (entries ! i)
            \<and> (\<forall>j. i < j \<and> j < k \<longrightarrow> \<not> sublist q (entries ! j))"
  then have "scan_back entries q k = Inr (Some i)"
    by (intro scan_back_found) (auto simp: includes_sublist)
  then show "performSearch q k s = Inr (s\<lparr>input := entries ! i, searchIndex := i\<rparr>)"
    using a by (simp add: performSearch_def entries_def)
next
  assume a: "q \<noteq> [] \<and> k \<le> length entries \<and> (\<forall>j<k. \<not> sublist q (entries ! j))"
  then have "scan_back entries q k = Inr None"
    by (intro scan_back_none) (auto simp: includes_sublist)
  then show "performSearch q k s = Inr s"
    using a by (simp add: performSearch_def entries_def)
next
  assume "isSearching s \<and> length (key e) = 1 \<and> \<not> ctrlKey e \<and> \<not> metaKey e \<and> \<not> altKey e"
  then show "handleKeyDown e s
              = performSearch (searchQuery s @ key e) (length entries)
                  (s\<lparr>searchQuery := searchQuery s @ key e, searchIndex := length entries\<rparr>)"
    by (auto simp: handleKeyDown_def Let_def entries_def)
next
  assume "isSearching s \<and> key e = ''Backspace''"
  then show "handleKeyDown e s
              = performSearch (butlast (searchQuery s)) (length entries)
                  (s\<lparr>searchQuery := butlast (searchQuery s), searchIndex := length entries\<rparr>)"
    by (simp add: handleKeyDown_def Let_def entries_def)
next
  assume "isSearching s \<and> ctrlKey e \<and> key e = ''r''"
  then show "handleKeyDown e s = performSearch (searchQuery s) (searchIndex s) s"
    by (simp add: handleKeyDown_def)
next
  assume inv: "isSearching s \<longrightarrow> searchIndex s \<le> length entries"
  show "\<exists>s'. handleKeyDown e s = Inr s'
                  \<and> (isSearching s' \<longrightarrow> searchIndex s' \<le> length (commandHistory s'))"
  proof (cases "isSearching s")
    case True
    then have le: "searchIndex s \<le> length (commandHistory s)" using inv by (simp add: entries_def)
    let ?n = "length (commandHistory s)"
    have reset: "\<exists>s'. performSearch q' ?n (s\<lparr>searchQuery := q', searchIndex := ?n\<rparr>) = Inr s'
                  \<and> (isSearching s' \<longrightarrow> searchIndex s' \<le> length (commandHistory s'))" for q'
      using performSearch_total [of ?n "s\<lparr>searchQuery := q', searchIndex := ?n\<rparr>" q']
      by auto
    have again: "\<exists>s'. performSearch (searchQuery s) (searchIndex s) s = Inr s'
                  \<and> (isSearching s' \<longrightarrow> searchIndex s' \<le> length (commandHistory s'))"
      using performSearch_total [OF le, of "searchQuery s"] le by auto
    show ?thesis
      using True reset again le
      by (simp add: handleKeyDown_def Let_def exitSearchMode_def)
  next
    case False
    then show ?thesis
      by (simp add: handleKeyDown_def Let_def handleAutocompleteSuggestions_def setHistory_def)
  qed
qed


theorem reverse_search_witness:
  "''ls'' \<noteq> [] \<and> 2 \<le> length (commandHistory search_session) \<and> (0::nat) < 2
   \<and> sublist ''ls'' (commandHistory search_session ! 0)
   \<and> \<not> sublist ''ls'' (commandHistory search_session ! 1)
   \<and> performSearch ''ls'' 2 search_session
       = Inr (search_session\<lparr>input := ''ls'', searchIndex := 0\<rparr>)
   \<and> isSearching search_session
   \<and> handleKeyDown (plain_key ''l'') search_session
       = Inr (search_session\<lparr>searchQuery := ''l'', input := ''ls -a'', searchIndex := 2\<rparr>)"
proof -
  have len: "2 \<le> length (commandHistory search_session)" by code_simp
  have hit: "sublist ''ls'' (commandHistory search_session ! 0)"
    unfolding includes_sublist [symmetric] by code_simp
  have between: "\<not> sublist ''ls'' (commandHistory search_session ! 1)"
    unfolding includes_sublist [symmetric] by code_simp
  have miss: "\<forall>j. 0 < j \<and> j < 2 \<longrightarrow> \<not> sublist ''ls'' (commandHistory search_session ! j)"
  proof (intro allI impI)
    fix j :: nat
    assume "0 < j \<and> j < 2"
    then have "j = 1" by arith
    then show "\<not> sublist ''ls'' (commandHistory search_session ! j)" using between by simp
  qed
  have entry: "commandHistory search_session ! 0 = ''ls''" by code_simp
  have older: "performSearch ''ls'' 2 search_session
       = Inr (search_session\<lparr>input := ''ls'', searchIndex := 0\<rparr>)"
    using reverse_search [of 2 search_session "''ls''" 0 "plain_key ''l''"] len hit miss
    unfolding entry by simp
  have mode: "isSearching search_session" by code_simp
  have plain: "length (key (plain_key ''l'')) = 1 \<and> \<not> ctrlKey (plain_key ''l'')
      \<and> \<not> metaKey (plain_key ''l'') \<and> \<not> altKey (plain_key ''l'')"
    by (simp add: plain_key_def)
  have search: "performSearch (searchQuery search_session @ key (plain_key ''l''))
        (length (commandHistory search_session))
        (search_session\<lparr>searchQuery := searchQuery search_session @ key (plain_key ''l''),
           searchIndex := length (commandHistory search_session)\<rparr>)
      = Inr (search_session\<lparr>searchQuery := ''l'', input := ''ls -a'', searchIndex := 2\<rparr>)"
    by code_simp
  have typed: "handleKeyDown (plain_key ''l'') search_session
       = Inr (search_session\<lparr>searchQuery := ''l'', input := ''ls -a'', searchIndex := 2\<rparr>)"
    using reverse_search [of 2 search_session "''ls''" 0 "plain_key ''l''"] mode plain
    unfolding search [symmetric] by blast
  show ?thesis using len hit between older mode typed by simp
qed

text \<open>The run of the specification: with the log \<open>ls\<close>, \<open>cat a.txt\<close>, \<open>ls -a\<close>, typing \<open>l\<close>
  shows \<open>ls -a\<close>, typing \<open>s\<close> keeps it, and backspace followed by \<open>s\<close> shows it again; the
  search key then moves on to the older \<open>ls\<close>.\<close>

lemma search_keys_example:
  "handleKeyDown (plain_key ''l'') search_session
     = Inr (search_session\<lparr>searchQuery := ''l'', input := ''ls -a'', searchIndex := 2\<rparr>)"
  "handleKeyDown (plain_key ''s'')
     (search_session\<lparr>searchQuery := ''l'', input := ''ls -a'', searchIndex := 2\<rparr>)
     = Inr (search_session\<lparr>searchQuery := ''ls'', input := ''ls -a'', searchIndex := 2\<rparr>)"
  "handleKeyDown (plain_key ''Backspace'')
     (search_session\<lparr>searchQuery := ''ls'', input := ''ls -a'', searchIndex := 2\<rparr>)
     = Inr (search_session\<lparr>searchQuery := ''l'', input := ''ls -a'', searchIndex := 2\<rparr>)"
  "handleKeyDown (ctrl_key ''r'')
     (search_session\<lparr>searchQuery := ''ls'', input := ''ls -a'', searchIndex := 2\<rparr>)
     = Inr (search_session\<lparr>searchQuery := ''ls'', input := ''ls'', searchIndex := 0\<rparr>)"
  "handleKeyDown (ctrl_key ''r'')
     (search_session\<lparr>searchQuery := ''ls'', input := ''ls'', searchIndex := 0\<rparr>)
     = Inr (search_session\<lparr>searchQuery := ''ls'', input := ''ls'', searchIndex := 0\<rparr>)"
  by code_simp+


section \<open>Tab completion\<close>

text \<open>
  C9 (as amended).  Outside search mode, Tab on an input that is empty after trimming
  changes nothing; otherwise the vocabulary entries that start with the trimmed input are
  collected: none changes nothing, exactly one replaces the input by that entry and a
  space, and more than one leave the input as it is and append to the history a command
  entry with the input as typed and an output entry with the matching entries joined by
  three spaces.  Nothing else of the session changes: no command is run.
\<close>

theorem tab_completion:
  fixes s :: session and e :: key_event
  assumes normal: "\<not> isSearching s" and tab: "key e = ''Tab''"
  defines "t \<equiv> trim (input s)"
  defines "matches \<equiv> filter (\<lambda>cmd. prefix t cmd) commands"
  defines "shown \<equiv> [Command_item (input s), Output_item (join ''   '' matches)]"
  shows "(t = [] \<longrightarrow> handleKeyDown e s = Inr s)
       \<and> (t \<noteq> [] \<and> matches = [] \<longrightarrow> handleKeyDown e s = Inr s)
       \<and> (t \<noteq> [] \<longrightarrow> (\<forall>m. matches = [m] \<longrightarrow> handleKeyDown e s = Inr (s\<lparr>input := m @ '' ''\<rparr>)))
       \<and> (t \<noteq> [] \<and> length matches > 1 \<longrightarrow>
            handleKeyDown e s
              = Inr (s\<lparr>history := history s @ shown,
                       commandHistory := command_texts (history s @ shown)\<rparr>))"
  using normal tab unfolding t_def matches_def shown_def
  by (auto simp: handleKeyDown_def Let_def handleAutocompleteSuggestions_def setHistory_def)

theorem tab_completion_witness:
  "\<not> isSearching (example_session\<lparr>input := '' gi ''\<rparr>) \<and> key (plain_key ''Tab'') = ''Tab''
   \<and> trim (input (example_session\<lparr>input := '' gi ''\<rparr>)) \<noteq> []
   \<and> handleKeyDown (plain_key ''Tab'') (example_session\<lparr>input := '' gi ''\<rparr>)
       = Inr (example_session
           \<lparr>input := '' gi '',
            history := [Command_item '' gi '',
              Output_item (''git status   git log   git clone   git push   git pull''
                 @ ''   git branch   git commit   git diff   git fetch'')],
            commandHistory := ['' gi '']\<rparr>)
   \<and> handleKeyDown (plain_key ''Tab'') (example_session\<lparr>input := ''who''\<rparr>)
       = Inr (example_session\<lparr>input := ''whoami ''\<rparr>)"
proof -
  let ?s = "example_session\<lparr>input := '' gi ''\<rparr>"
  let ?u = "example_session\<lparr>input := ''who''\<rparr>"
  have normal: "\<not> isSearching ?s" and normal': "\<not> isSearching ?u" by code_simp+
  have tab: "key (plain_key ''Tab'') = ''Tab''" by (simp add: plain_key_def)
  have t: "trim (input ?s) \<noteq> []" and t': "trim (input ?u) \<noteq> []" by code_simp+
  have many: "length (filter (\<lambda>cmd. prefix (trim (input ?s)) cmd) commands) > 1" by code_simp
  have one: "filter (\<lambda>cmd. prefix (trim (input ?u)) cmd) commands = [''whoami'']" by code_simp
  have shown: "?s\<lparr>history := history ?s @ [Command_item (input ?s),
                    Output_item (join ''   '' (filter (\<lambda>cmd. prefix (trim (input ?s)) cmd) commands))],
                 commandHistory := command_texts (history ?s @ [Command_item (input ?s),
                    Output_item (join ''   '' (filter (\<lambda>cmd. prefix (trim (input ?s)) cmd) commands))])\<rparr>
      = example_session
           \<lparr>input := '' gi '',
            history := [Command_item '' gi '',
              Output_item (''git status   git log   git clone   git push   git pull''
                 @ ''   git branch   git commit   git diff   git fetch'')],
            commandHistory := ['' gi '']\<rparr>"
    by code_simp
  have a: "handleKeyDown (plain_key ''Tab'') ?s
       = Inr (example_session
           \<lparr>input := '' gi '',
            history := [Command_item '' gi '',
              Output_item (''git status   git log   git clone   git push   git pull''
                 @ ''   git branch   git commit   git diff   git fetch'')],
            commandHistory := ['' gi '']\<rparr>)"
    using tab_completion [OF normal tab] t many unfolding shown [symmetric] by blast
  have "?u\<lparr>input := ''whoami'' @ '' ''\<rparr> = example_session\<lparr>input := ''whoami ''\<rparr>"
    by simp
  then have b: "handleKeyDown (plain_key ''Tab'') ?u = Inr (example_session\<lparr>input := ''whoami ''\<rparr>)"
    using tab_completion [OF normal' tab] t' one by metis
  show ?thesis using normal tab t a b by blast
qed

text \<open>An input that begins with a no-break space is trimmed like one that begins with a
  space.\<close>

lemma tab_completion_no_break_space:
  "handleKeyDown (plain_key ''Tab'') (example_session\<lparr>input := CHR 0xA0 # ''who''\<rparr>)
     = Inr (example_session\<lparr>input := ''whoami ''\<rparr>)"
  by code_simp

text \<open>C9 as stated: the candidates are not joined by a single space.\<close>

theorem tab_completion_counterexample:
  "handleKeyDown (plain_key ''Tab'') (example_session\<lparr>input := ''c''\<rparr>)
     = Inr (example_session
         \<lparr>input := ''c'',
          history := [Command_item ''c'', Output_item ''clear   cd   cat''],
          commandHistory := [''c'']\<rparr>)
   \<and> ''clear   cd   cat'' \<noteq> join '' '' [''clear'', ''cd'', ''cat'']"
  by code_simp


end
